theory Spec2Isabelle
  imports Complex_Main "HOL-Library.Sublist" "HOL-Library.List_Lexorder" "HOL-Library.Char_ord"
    "HOL-Library.AList" "HOL-Library.Multiset"
begin

section \<open>JavaScript strings and regular-expression scans\<close>

text \<open>
  A JavaScript string is modelled as a \<^typ>\<open>string\<close>, one \<^typ>\<open>char\<close> per code unit;
  the model covers the code units below 256. The global match of a character-class
  pattern \<open>/[...]+/g\<close> scans from the left, takes the longest run of class members
  at the first position where one starts, and resumes after it.
\<close>

function matchAll :: "(char \<Rightarrow> bool) \<Rightarrow> string \<Rightarrow> string list" where
  "matchAll P [] = []"
| "matchAll P (c # cs) =
     (if P c then takeWhile P (c # cs) # matchAll P (dropWhile P cs)
      else matchAll P cs)"
  by pat_completeness auto
termination
  by (relation "measure (\<lambda>(P, s). length s)") (auto simp: le_imp_less_Suc length_dropWhile_le)

text \<open>\<open>Array.prototype.join\<close> for arrays of strings.\<close>

fun join :: "string \<Rightarrow> string list \<Rightarrow> string" where
  "join sep [] = []"
| "join sep [x] = x"
| "join sep (x # y # ys) = x @ sep @ join sep (y # ys)"

section \<open>Capability registry and the Anthropic adapter (oracle/tools.ts, oracle/anthropic.ts)\<close>

record ToolSupport =
  search :: bool

definition toolSupportForModel :: "string \<Rightarrow> ToolSupport" where
  "toolSupportForModel model =
     (if prefix ''claude'' model then \<lparr>search = False\<rparr> else \<lparr>search = True\<rparr>)"

text \<open>
  The provider-agnostic request body (\<open>OracleRequestBody\<close>) as \<open>buildRequestBody\<close> fills it.
  A content piece either carries a \<open>text\<close> property (possibly undefined) or it does not.
\<close>

datatype ContentPiece = TextPiece "string option" | OtherPiece

record InputItem =
  item_role :: string
  item_content :: "ContentPiece list option"

datatype Tool = ToolOfType string

record OracleRequestBody =
  body_model :: string
  body_instructions :: "string option"
  body_input :: "InputItem list option"
  body_tools :: "Tool list option"
  body_max_output_tokens :: "nat option"
  body_background :: "bool option"
  body_store :: "bool option"

text \<open>The native call parameters (\<open>MessageCreateParams\<close> of the Anthropic SDK).\<close>

record TextBlock =
  block_type :: string
  block_text :: string

record MessageParam =
  msg_role :: string
  msg_content :: "TextBlock list"

record MessageCreateParams =
  params_model :: string
  params_max_tokens :: nat
  params_messages :: "MessageParam list"
  params_system :: "string option"
  params_tools :: "Tool list option"

definition DEFAULT_MAX_OUTPUT_TOKENS :: nat where
  "DEFAULT_MAX_OUTPUT_TOKENS = 1024"

text \<open>White space of \<open>String.prototype.trim\<close> among the code units below 256.\<close>

definition isWhiteSpace :: "char \<Rightarrow> bool" where
  "isWhiteSpace c = (c \<in> set [CHR 0x09, CHR 0x0A, CHR 0x0B, CHR 0x0C, CHR 0x0D, CHR 0x20, CHR 0xA0])"

definition trimEnd :: "string \<Rightarrow> string" where
  "trimEnd s = rev (dropWhile isWhiteSpace (rev s))"

definition trim :: "string \<Rightarrow> string" where
  "trim s = trimEnd (dropWhile isWhiteSpace s)"

definition pieceText :: "ContentPiece \<Rightarrow> string" where
  "pieceText piece = (case piece of TextPiece (Some t) \<Rightarrow> t | TextPiece None \<Rightarrow> [] | OtherPiece \<Rightarrow> [])"

definition userTextOf :: "OracleRequestBody \<Rightarrow> string" where
  "userTextOf body =
     join [CHR 0x0A, CHR 0x0A]
       (concat (map (\<lambda>item. filter (\<lambda>t. t \<noteq> [])
                               (map pieceText (case item_content item of None \<Rightarrow> [] | Some ps \<Rightarrow> ps)))
                    (case body_input body of None \<Rightarrow> [] | Some items \<Rightarrow> items)))"

definition buildAnthropicParams :: "OracleRequestBody \<Rightarrow> string \<Rightarrow> MessageCreateParams" where
  "buildAnthropicParams body model =
     (let params = \<lparr> params_model = model,
                      params_max_tokens = (case body_max_output_tokens body of
                                      None \<Rightarrow> DEFAULT_MAX_OUTPUT_TOKENS | Some n \<Rightarrow> n),
                      params_messages = [\<lparr> msg_role = ''user'',
                                     msg_content = [\<lparr> block_type = ''text'',
                                                       block_text = userTextOf body \<rparr>] \<rparr>],
                      params_system = None,
                      params_tools = None \<rparr>
      in (case body_instructions body of
            Some i \<Rightarrow> if length (trim i) > 0 then params \<lparr> params_system := Some i \<rparr> else params
          | None \<Rightarrow> params))"

section \<open>Cookie expiration (browser/cookies.ts)\<close>

text \<open>
  A JavaScript number is \<open>NaN\<close>, plus or minus infinity, or a finite double, carried here as
  the rational it denotes (negative zero is identified with zero). An absent argument is
  \<open>None\<close>.
\<close>

datatype jsnumber = NaN | PosInf | NegInf | Num rat

text \<open>
  The Number value of a real number (IEEE 754 binary64, round to nearest, ties to even):
  with \<open>e\<close> the binary exponent of \<open>x\<close>, the result is the multiple of \<open>2^(e - 52)\<close>, or of
  \<open>2^-1074\<close> in the subnormal range, nearest to \<open>x\<close>; a result of magnitude \<open>2^1024\<close> or
  more is an infinity.
\<close>

function floorlog2 :: "int \<Rightarrow> int" where
  "floorlog2 n = (if n < 2 then 0 else 1 + floorlog2 (n div 2))"
  by pat_completeness auto
termination
  by (relation "measure nat") auto

declare floorlog2.simps [simp del]

definition pow2 :: "int \<Rightarrow> rat" where
  "pow2 k = (if 0 \<le> k then 2 ^ nat k else 1 / 2 ^ nat (- k))"

text \<open>The binary exponent \<open>\<lfloor>log\<^sub>2 |x|\<rfloor>\<close> of a number other than zero.\<close>

definition binExp :: "rat \<Rightarrow> int" where
  "binExp x =
     (case quotient_of \<bar>x\<bar> of
        (a, b) \<Rightarrow>
          (let k = floorlog2 a - floorlog2 b
           in if pow2 k \<le> \<bar>x\<bar> then k else k - 1))"

definition roundHalfEven :: "rat \<Rightarrow> int" where
  "roundHalfEven x =
     (let f = \<lfloor>x\<rfloor>; d = x - of_int f
      in if d < 1 / 2 then f else if 1 / 2 < d then f + 1 else if even f then f else f + 1)"

definition quantum :: "rat \<Rightarrow> rat" where
  "quantum x = pow2 (max (binExp x - 52) (- 1074))"

definition roundToQuantum :: "rat \<Rightarrow> rat" where
  "roundToQuantum x = of_int (roundHalfEven (x / quantum x)) * quantum x"

definition toDouble :: "rat \<Rightarrow> jsnumber" where
  "toDouble x =
     (if 1024 \<le> binExp (roundToQuantum x) then (if 0 < x then PosInf else NegInf)
      else Num (roundToQuantum x))"

definition isDouble :: "rat \<Rightarrow> bool" where
  "isDouble x = (toDouble x = Num x)"









section \<open>Markdown fences (oracle/markdown.ts)\<close>

definition backtick :: char where
  "backtick = CHR 0x60"

definition pickFence :: "string \<Rightarrow> string" where
  "pickFence content =
     (let matches = matchAll (\<lambda>c. c = backtick) content;
          maxTicks = foldl (\<lambda>mx m. max mx (length m)) 0 matches;
          fenceLength = max 3 (maxTicks + 1)
      in replicate fenceLength backtick)"

text \<open>
  The spec's words: the longest run of consecutive backticks found inside the content,
  as the greatest \<open>n\<close> such that \<open>n\<close> backticks in a row occur in it.
\<close>

definition longestBacktickRun :: "string \<Rightarrow> nat" where
  "longestBacktickRun content = Max {n. sublist (replicate n backtick) content}"

section \<open>JavaScript values, the file system and the clock\<close>

text \<open>
  The values that \<open>JSON.parse\<close> returns. Numbers are integers in the model; an object is
  the list of its properties in insertion order, looked up by \<^const>\<open>map_of\<close> and updated
  in place by \<^const>\<open>AList.update\<close> (a new key goes to the end), as property assignment does.
  \<open>undefined\<close> is \<^const>\<open>None\<close> of \<^typ>\<open>'a option\<close>.
\<close>

datatype json = JNull | JBool bool | JNum int | JStr string | JArr "json list"
  | JObj "(string \<times> json) list"

text \<open>Decimal digits of a natural number, as template literals and \<open>String(n)\<close> print it.\<close>

function showNat :: "nat \<Rightarrow> string" where
  "showNat n = (if n < 10 then [char_of (48 + n)]
                else showNat (n div 10) @ [char_of (48 + n mod 10)])"
  by pat_completeness auto
termination
  by (relation "measure id") auto

declare showNat.simps [simp del]

definition showInt :: "int \<Rightarrow> string" where
  "showInt i = (if i < 0 then CHR ''-'' # showNat (nat (- i)) else showNat (nat i))"

text \<open>
  Property read on a value that is not \<open>null\<close>. Of the keys read by the session store,
  only objects have any.
\<close>

definition getProp :: "json \<Rightarrow> string \<Rightarrow> json option" where
  "getProp v k = (case v of JObj kvs \<Rightarrow> map_of kvs k | _ \<Rightarrow> None)"

definition truthy :: "json option \<Rightarrow> bool" where
  "truthy v =
     (case v of
        None \<Rightarrow> False
      | Some JNull \<Rightarrow> False
      | Some (JBool b) \<Rightarrow> b
      | Some (JNum n) \<Rightarrow> n \<noteq> 0
      | Some (JStr s) \<Rightarrow> s \<noteq> []
      | Some (JArr xs) \<Rightarrow> True
      | Some (JObj kvs) \<Rightarrow> True)"

text \<open>\<open>a ?? b\<close>: the left operand unless it is \<open>null\<close> or \<open>undefined\<close>.\<close>

definition nullish :: "json option \<Rightarrow> json option \<Rightarrow> json option" where
  "nullish a b = (case a of None \<Rightarrow> b | Some JNull \<Rightarrow> b | Some v \<Rightarrow> Some v)"

text \<open>The own enumerable properties that \<open>{...v}\<close> copies.\<close>

definition spread :: "json \<Rightarrow> (string \<times> json) list" where
  "spread v =
     (case v of
        JObj kvs \<Rightarrow> kvs
      | JArr xs \<Rightarrow> map (\<lambda>i. (showNat i, xs ! i)) [0 ..< length xs]
      | JStr s \<Rightarrow> map (\<lambda>i. (showNat i, JStr [s ! i])) [0 ..< length s]
      | _ \<Rightarrow> [])"

text \<open>\<open>{...target, ...src}\<close> on property lists.\<close>

definition assignAll :: "(string \<times> json) list \<Rightarrow> (string \<times> json) list \<Rightarrow> (string \<times> json) list" where
  "assignAll target src = fold (\<lambda>(k, v). AList.update k v) src target"

text \<open>\<open>ToString\<close>, as a template literal applies it.\<close>

fun jsToString :: "json \<Rightarrow> string" where
  "jsToString JNull = ''null''"
| "jsToString (JBool b) = (if b then ''true'' else ''false'')"
| "jsToString (JNum n) = showInt n"
| "jsToString (JStr s) = s"
| "jsToString (JArr xs) = join '','' (map (\<lambda>x. if x = JNull then [] else jsToString x) xs)"
| "jsToString (JObj kvs) = ''[object Object]''"

definition templ :: "json option \<Rightarrow> string" where
  "templ v = (case v of None \<Rightarrow> ''undefined'' | Some x \<Rightarrow> jsToString x)"

text \<open>
  Errors thrown by the code and its libraries: a plain \<open>Error\<close>, a \<open>TypeError\<close>, a file
  system error with its code and path, and the \<open>FileValidationError\<close> of the file reader
  with its message and details.
\<close>

datatype fv_details = Patterns "string list" "string list" | PathDetail string
  | Oversized "string list" nat

datatype js_error = Error string | TypeError string | SystemError string string
  | FileValidationError string fv_details

text \<open>
  The file system: the directories that exist and the files with their content, in the
  order a directory listing returns them. A file is a text, or a JSON document, kept as
  the value \<open>JSON.parse\<close> gives for it (what the store writes with \<open>JSON.stringify\<close>
  it reads back as the same value). A text read of a JSON document and a JSON read of a
  text both fail. Paths are POSIX strings and are joined without normalisation, which is
  what \<open>path.join\<close> does on segments free of \<open>.\<close>, \<open>..\<close> and doubled separators.
\<close>

datatype file_content = Text string | Json json

record fs =
  fs_dirs :: "string list"
  fs_files :: "(string \<times> file_content) list"

definition path_join :: "string \<Rightarrow> string \<Rightarrow> string" where
  "path_join a b = a @ ''/'' @ b"

definition path_isAbsolute :: "string \<Rightarrow> bool" where
  "path_isAbsolute p = prefix ''/'' p"

definition dirname :: "string \<Rightarrow> string" where
  "dirname p =
     (case rev (dropWhile (\<lambda>c. c \<noteq> CHR ''/'') (rev p)) of
        [] \<Rightarrow> ''.''
      | q # qs \<Rightarrow> if butlast (q # qs) = [] then ''/'' else butlast (q # qs))"

definition ancestors :: "string \<Rightarrow> string list" where
  "ancestors p =
     map (\<lambda>i. if i = 0 then ''/'' else take i p)
         (filter (\<lambda>i. p ! i = CHR ''/'') [0 ..< length p])"

definition fileExists :: "fs \<Rightarrow> string \<Rightarrow> bool" where
  "fileExists fs targetPath =
     (targetPath \<in> set (fs_dirs fs) \<or> targetPath \<in> fst ` set (fs_files fs))"

definition readText :: "fs \<Rightarrow> string \<Rightarrow> string option" where
  "readText fs p = (case map_of (fs_files fs) p of Some (Text s) \<Rightarrow> Some s | _ \<Rightarrow> None)"

definition readJson :: "fs \<Rightarrow> string \<Rightarrow> json option" where
  "readJson fs p = (case map_of (fs_files fs) p of Some (Json v) \<Rightarrow> Some v | _ \<Rightarrow> None)"

text \<open>
  \<open>fs.writeFile\<close> creates or replaces the file in a directory that exists; it does not
  create directories. When the directory is missing, the error tells why the path could
  not be followed: \<open>ENOTDIR\<close> with a regular file in the place of a directory on the way,
  \<open>ENOENT\<close> with a directory missing.
\<close>

definition writeFile :: "fs \<Rightarrow> string \<Rightarrow> file_content \<Rightarrow> js_error + fs" where
  "writeFile fs p content =
     (if dirname p \<in> set (fs_dirs fs)
      then (if p \<in> set (fs_dirs fs) then Inl (SystemError ''EISDIR'' p)
            else Inr (fs \<lparr> fs_files := AList.update p content (fs_files fs) \<rparr>))
      else if \<exists>q \<in> set (ancestors p). q \<in> fst ` set (fs_files fs)
           then Inl (SystemError ''ENOTDIR'' p)
           else Inl (SystemError ''ENOENT'' p))"

text \<open>
  \<open>fs.mkdir(dirPath, { recursive: true })\<close>: the directory and its missing ancestors are
  created; a file in the place of the directory or of an ancestor makes it fail.
\<close>

definition ensureDir :: "fs \<Rightarrow> string \<Rightarrow> js_error + fs" where
  "ensureDir fs dirPath =
     (if dirPath \<in> fst ` set (fs_files fs) then Inl (SystemError ''EEXIST'' dirPath)
      else if \<exists>q \<in> set (ancestors dirPath). q \<in> fst ` set (fs_files fs)
      then Inl (SystemError ''ENOTDIR'' dirPath)
      else Inr (fs \<lparr> fs_dirs := fs_dirs fs @
                      filter (\<lambda>q. q \<notin> set (fs_dirs fs)) (remdups (ancestors dirPath @ [dirPath])) \<rparr>))"

definition childName :: "string \<Rightarrow> string \<Rightarrow> string option" where
  "childName dir p =
     (let r = drop (length dir + 1) p
      in if prefix (dir @ ''/'') p \<and> r \<noteq> [] \<and> CHR ''/'' \<notin> set r then Some r else None)"

text \<open>
  \<open>fs.readdir\<close> gives the names in a directory sorted by their bytes, the order in which
  the runtime's directory scan returns them.
\<close>

definition readdir :: "fs \<Rightarrow> string \<Rightarrow> string list option" where
  "readdir fs dir =
     (if dir \<in> set (fs_dirs fs)
      then Some (sort (remdups (List.map_filter (childName dir)
                                  (map fst (fs_files fs) @ fs_dirs fs))))
      else None)"

text \<open>
  What the runtime decides and the language does not: the collation of
  \<open>String.prototype.localeCompare\<close> in the default locale, and the result of
  \<open>Array.prototype.sort\<close> where the language leaves it to the implementation.
\<close>

record Engine =
  collate :: "string \<Rightarrow> string \<Rightarrow> int"
  implSort :: "(json \<Rightarrow> json \<Rightarrow> js_error + int) \<Rightarrow> json list \<Rightarrow> js_error + json list"

text \<open>
  A comparator is consistent for the elements of an array when it returns a number for
  every pair of them and orders them as a total preorder: every element equals itself,
  \<open>a\<close> is before \<open>b\<close> exactly when \<open>b\<close> is after \<open>a\<close>, and not-after is transitive.
\<close>

definition cmpBefore :: "('a \<Rightarrow> 'a \<Rightarrow> js_error + int) \<Rightarrow> 'a \<Rightarrow> 'a \<Rightarrow> bool" where
  "cmpBefore cmp a b = (case cmp a b of Inl e \<Rightarrow> False | Inr c \<Rightarrow> c < 0)"

definition cmpAfter :: "('a \<Rightarrow> 'a \<Rightarrow> js_error + int) \<Rightarrow> 'a \<Rightarrow> 'a \<Rightarrow> bool" where
  "cmpAfter cmp a b = (case cmp a b of Inl e \<Rightarrow> False | Inr c \<Rightarrow> 0 < c)"

definition cmpNotAfter :: "('a \<Rightarrow> 'a \<Rightarrow> js_error + int) \<Rightarrow> 'a \<Rightarrow> 'a \<Rightarrow> bool" where
  "cmpNotAfter cmp a b = (case cmp a b of Inl e \<Rightarrow> False | Inr c \<Rightarrow> c \<le> 0)"

definition consistentOn :: "('a \<Rightarrow> 'a \<Rightarrow> js_error + int) \<Rightarrow> 'a list \<Rightarrow> bool" where
  "consistentOn cmp xs =
     ((\<forall>a \<in> set xs. cmp a a = Inr 0)
      \<and> (\<forall>a \<in> set xs. \<forall>b \<in> set xs.
            (cmpNotAfter cmp a b \<or> cmpAfter cmp a b)
            \<and> (cmpBefore cmp a b \<longleftrightarrow> cmpAfter cmp b a))
      \<and> (\<forall>a \<in> set xs. \<forall>b \<in> set xs. \<forall>c \<in> set xs.
            cmpNotAfter cmp a b \<and> cmpNotAfter cmp b c \<longrightarrow> cmpNotAfter cmp a c))"

text \<open>
  The stable sort: each element, from the last to the first, is put before the first
  element of the sorted rest that it is not after.
\<close>

fun insertStable :: "('a \<Rightarrow> 'a \<Rightarrow> bool) \<Rightarrow> 'a \<Rightarrow> 'a list \<Rightarrow> 'a list" where
  "insertStable le x [] = [x]"
| "insertStable le x (y # ys) = (if le x y then x # y # ys else y # insertStable le x ys)"

fun stableSort :: "('a \<Rightarrow> 'a \<Rightarrow> bool) \<Rightarrow> 'a list \<Rightarrow> 'a list" where
  "stableSort le [] = []"
| "stableSort le (x # xs) = insertStable le x (stableSort le xs)"

text \<open>
  \<open>Array.prototype.sort\<close>: the sort is stable, so with a comparator that is consistent for
  the elements the result is the one stable sorted arrangement; with any other comparator
  (also one that throws for some pair) the calls made and the order are up to the
  implementation.
\<close>

definition Array_sort ::
  "Engine \<Rightarrow> (json \<Rightarrow> json \<Rightarrow> js_error + int) \<Rightarrow> json list \<Rightarrow> js_error + json list" where
  "Array_sort R cmp xs =
     (if consistentOn cmp xs then Inr (stableSort (cmpNotAfter cmp) xs)
      else implSort R cmp xs)"

text \<open>
  The clock and date functions of the runtime: \<open>Date.parse\<close> on a string (\<open>None\<close> is
  \<open>NaN\<close>) and \<open>toISOString\<close> of a time in milliseconds. A call that reads the clock
  takes the reading as an argument.
\<close>

record DateApi =
  date_parse :: "string \<Rightarrow> int option"
  date_toISOString :: "int \<Rightarrow> string"

text \<open>\<open>new Date(v).getTime()\<close> for a property value \<open>v\<close>.\<close>

definition dateValue :: "DateApi \<Rightarrow> json option \<Rightarrow> int option" where
  "dateValue D v =
     (case v of
        None \<Rightarrow> None
      | Some JNull \<Rightarrow> Some 0
      | Some (JBool b) \<Rightarrow> Some (if b then 1 else 0)
      | Some (JNum n) \<Rightarrow> if \<bar>n\<bar> \<le> 8640000000000000 then Some n else None
      | Some x \<Rightarrow> date_parse D (jsToString x))"

section \<open>The session store (sessionManager.ts)\<close>

text \<open>
  The home directory of the tool is \<open>process.env.ORACLE_HOME_DIR\<close> or \<open>~/.oracle\<close>; one
  fixed absolute path stands for it; only the worked examples depend on its value.
\<close>

definition ORACLE_HOME :: string where
  "ORACLE_HOME = ''/home/user/.oracle''"

definition SESSIONS_DIR :: string where
  "SESSIONS_DIR = path_join ORACLE_HOME ''sessions''"

definition METADATA_FILENAME :: string where
  "METADATA_FILENAME = ''meta.json''"

definition LEGACY_SESSION_FILENAME :: string where
  "LEGACY_SESSION_FILENAME = ''session.json''"

definition MODELS_DIRNAME :: string where
  "MODELS_DIRNAME = ''models''"

definition MODEL_JSON_EXTENSION :: string where
  "MODEL_JSON_EXTENSION = ''.json''"

definition MODEL_LOG_EXTENSION :: string where
  "MODEL_LOG_EXTENSION = ''.log''"

definition ZOMBIE_MAX_AGE_MS :: int where
  "ZOMBIE_MAX_AGE_MS = 60 * 60 * 1000"

definition sessionDir :: "string \<Rightarrow> string" where
  "sessionDir sid = path_join SESSIONS_DIR sid"

definition metaPath :: "string \<Rightarrow> string" where
  "metaPath sid = path_join (sessionDir sid) METADATA_FILENAME"

definition legacySessionPath :: "string \<Rightarrow> string" where
  "legacySessionPath sid = path_join (sessionDir sid) LEGACY_SESSION_FILENAME"

definition logPath :: "string \<Rightarrow> string" where
  "logPath sid = path_join (sessionDir sid) ''output.log''"

definition modelsDir :: "string \<Rightarrow> string" where
  "modelsDir sid = path_join (sessionDir sid) MODELS_DIRNAME"

definition modelJsonPath :: "string \<Rightarrow> json option \<Rightarrow> string" where
  "modelJsonPath sid model = path_join (modelsDir sid) (templ model @ MODEL_JSON_EXTENSION)"

definition modelLogPath :: "string \<Rightarrow> json option \<Rightarrow> string" where
  "modelLogPath sid model = path_join (modelsDir sid) (templ model @ MODEL_LOG_EXTENSION)"


definition ensureSessionStorage :: "fs \<Rightarrow> js_error + fs" where
  "ensureSessionStorage fs = ensureDir fs SESSIONS_DIR"

text \<open>
  The loop of \<open>ensureUniqueSessionId\<close>; it ends when a candidate is free, and \<open>None\<close>
  stands for a loop that never ends.
\<close>

partial_function (option) uniqueLoop :: "fs \<Rightarrow> string \<Rightarrow> string \<Rightarrow> nat \<Rightarrow> string option" where
  "uniqueLoop fs baseSlug candidate sfx =
     (if fileExists fs (sessionDir candidate)
      then uniqueLoop fs baseSlug (baseSlug @ ''-'' @ showNat sfx) (sfx + 1)
      else Some candidate)"

declare uniqueLoop.simps [code]

definition ensureUniqueSessionId :: "fs \<Rightarrow> string \<Rightarrow> string option" where
  "ensureUniqueSessionId fs baseSlug = uniqueLoop fs baseSlug baseSlug 2"

text \<open>
  \<open>record.log?.path\<close> and \<open>record.log?.bytes\<close>; the relative path of the model's log is
  \<open>models/<model>.log\<close>. Reading \<open>record.log\<close> of \<open>null\<close> throws.
\<close>

definition optChain :: "json option \<Rightarrow> string \<Rightarrow> json option" where
  "optChain v k = (case v of None \<Rightarrow> None | Some JNull \<Rightarrow> None | Some x \<Rightarrow> getProp x k)"

definition ensureModelLogReference :: "string \<Rightarrow> json \<Rightarrow> js_error + json" where
  "ensureModelLogReference sessionId record =
     (if record = JNull then Inl (TypeError ''Cannot read properties of null'')
      else
        let logPathRelative =
              nullish (optChain (getProp record ''log'') ''path'')
                (Some (JStr (path_join MODELS_DIRNAME
                               (templ (getProp record ''model'') @ MODEL_LOG_EXTENSION))));
            bytes = optChain (getProp record ''log'') ''bytes''
        in Inr (JObj (AList.update ''log''
                        (JObj ((case logPathRelative of None \<Rightarrow> [] | Some p \<Rightarrow> [(''path'', p)])
                               @ (case bytes of None \<Rightarrow> [] | Some b \<Rightarrow> [(''bytes'', b)])))
                        (spread record))))"

definition endsWith :: "string \<Rightarrow> string \<Rightarrow> bool" where
  "endsWith s e = suffix e s"

definition listModelRunFiles :: "fs \<Rightarrow> string \<Rightarrow> json list" where
  "listModelRunFiles fs sessionId =
     (let dir = modelsDir sessionId;
          entries = (case readdir fs dir of None \<Rightarrow> [] | Some es \<Rightarrow> es)
      in concat (map (\<lambda>entry.
           if \<not> endsWith entry MODEL_JSON_EXTENSION then []
           else (case readJson fs (path_join dir entry) of
                   None \<Rightarrow> []
                 | Some parsed \<Rightarrow>
                     (case ensureModelLogReference sessionId parsed of
                        Inl e \<Rightarrow> [] | Inr normalized \<Rightarrow> [normalized]))) entries))"

definition isSessionMetadataRecord :: "json \<Rightarrow> bool" where
  "isSessionMetadataRecord v =
     (truthy (Some v)
      \<and> (case getProp v ''id'' of Some (JStr s) \<Rightarrow> True | _ \<Rightarrow> False)
      \<and> truthy (getProp v ''status''))"

definition attachModelRuns :: "fs \<Rightarrow> json \<Rightarrow> string \<Rightarrow> json" where
  "attachModelRuns fs meta sessionId =
     (let runs = listModelRunFiles fs sessionId
      in if length runs = 0 then meta
         else JObj (AList.update ''models'' (JArr runs) (spread meta)))"

definition isZombie :: "DateApi \<Rightarrow> int \<Rightarrow> json \<Rightarrow> js_error + bool" where
  "isZombie D now meta =
     (if meta = JNull then Inl (TypeError ''Cannot read properties of null'')
      else if getProp meta ''status'' \<noteq> Some (JStr ''running'') then Inr False
      else
        let reference = nullish (getProp meta ''startedAt'') (getProp meta ''createdAt'')
        in if \<not> truthy reference then Inr False
           else (case date_parse D (templ reference) of
                   None \<Rightarrow> Inr False
                 | Some startedMs \<Rightarrow> Inr (now - startedMs > ZOMBIE_MAX_AGE_MS)))"

definition markZombie :: "DateApi \<Rightarrow> int \<Rightarrow> bool \<Rightarrow> json \<Rightarrow> fs \<Rightarrow> js_error + (json \<times> fs)" where
  "markZombie D now persist meta fs =
     (case isZombie D now meta of
        Inl e \<Rightarrow> Inl e
      | Inr z \<Rightarrow>
          if \<not> z then Inr (meta, fs)
          else
            let updated = JObj (assignAll (spread meta)
                  [(''status'', JStr ''error''),
                   (''errorMessage'', JStr ''Session marked as zombie (>60m stale)''),
                   (''completedAt'', JStr (date_toISOString D now))])
            in if persist
               then (case getProp meta ''id'' of
                       Some (JStr i) \<Rightarrow>
                         (case writeFile fs (metaPath i) (Json updated) of
                            Inl e \<Rightarrow> Inl e
                          | Inr fs' \<Rightarrow> Inr (updated, fs'))
                     | _ \<Rightarrow> Inl (TypeError ''The path argument must be of type string''))
               else Inr (updated, fs))"

definition readModernSessionMetadata :: "DateApi \<Rightarrow> int \<Rightarrow> fs \<Rightarrow> string \<Rightarrow> json option" where
  "readModernSessionMetadata D now fs sessionId =
     (case readJson fs (metaPath sessionId) of
        None \<Rightarrow> None
      | Some parsed \<Rightarrow>
          if \<not> isSessionMetadataRecord parsed then None
          else (case markZombie D now False (attachModelRuns fs parsed sessionId) fs of
                  Inl e \<Rightarrow> None
                | Inr (m, fs') \<Rightarrow> Some m))"

definition readLegacySessionMetadata :: "DateApi \<Rightarrow> int \<Rightarrow> fs \<Rightarrow> string \<Rightarrow> json option" where
  "readLegacySessionMetadata D now fs sessionId =
     (case readJson fs (legacySessionPath sessionId) of
        None \<Rightarrow> None
      | Some parsed \<Rightarrow>
          (case markZombie D now False (attachModelRuns fs parsed sessionId) fs of
             Inl e \<Rightarrow> None
           | Inr (m, fs') \<Rightarrow> Some m))"

definition readSessionMetadata :: "DateApi \<Rightarrow> int \<Rightarrow> fs \<Rightarrow> string \<Rightarrow> json option" where
  "readSessionMetadata D now fs sessionId =
     (let modern = readModernSessionMetadata D now fs sessionId
      in if truthy modern then modern
         else let legacy = readLegacySessionMetadata D now fs sessionId
              in if truthy legacy then legacy else None)"


text \<open>
  The loop of \<open>listSessionsMetadata\<close>. Each entry has two clock readings: the one of the
  read and the one of the check that follows it.
\<close>

fun listLoop ::
  "DateApi \<Rightarrow> (string \<Rightarrow> int \<times> int) \<Rightarrow> string list \<Rightarrow> json list \<Rightarrow> fs \<Rightarrow> js_error + (json list \<times> fs)" where
  "listLoop D clock [] metas fs = Inr (metas, fs)"
| "listLoop D clock (entry # rest) metas fs =
     (case readSessionMetadata D (fst (clock entry)) fs entry of
        None \<Rightarrow> listLoop D clock rest metas fs
      | Some meta \<Rightarrow>
          (case markZombie D (snd (clock entry)) True meta fs of
             Inl e \<Rightarrow> Inl e
           | Inr (meta', fs') \<Rightarrow> listLoop D clock rest (metas @ [meta']) fs'))"

definition compareCreatedDesc :: "DateApi \<Rightarrow> json \<Rightarrow> json \<Rightarrow> js_error + int" where
  "compareCreatedDesc D a b =
     (case (dateValue D (getProp b ''createdAt''), dateValue D (getProp a ''createdAt'')) of
        (Some tb, Some ta) \<Rightarrow> Inr (tb - ta)
      | _ \<Rightarrow> Inr 0)"

definition listSessionsMetadata ::
  "DateApi \<Rightarrow> (string \<Rightarrow> int \<times> int) \<Rightarrow> Engine \<Rightarrow> fs \<Rightarrow> js_error + (json list \<times> fs)" where
  "listSessionsMetadata D clock R fs =
     (case ensureSessionStorage fs of
        Inl e \<Rightarrow> Inl e
      | Inr fs1 \<Rightarrow>
          let entries = (case readdir fs1 SESSIONS_DIR of None \<Rightarrow> [] | Some es \<Rightarrow> es)
          in (case listLoop D clock entries [] fs1 of
                Inl e \<Rightarrow> Inl e
              | Inr (metas, fs2) \<Rightarrow>
                  (case Array_sort R (compareCreatedDesc D) metas of
                     Inl e \<Rightarrow> Inl e
                   | Inr ordered \<Rightarrow> Inr (ordered, fs2))))"

text \<open>The comparator of \<open>readSessionLog\<close>; \<open>localeCompare\<close> exists on strings only.\<close>

definition compareRuns :: "Engine \<Rightarrow> json \<Rightarrow> json \<Rightarrow> js_error + int" where
  "compareRuns R a b =
     (if truthy (getProp a ''startedAt'') \<and> truthy (getProp b ''startedAt'')
      then (case getProp a ''startedAt'' of
              Some (JStr s) \<Rightarrow> Inr (collate R s (templ (getProp b ''startedAt'')))
            | _ \<Rightarrow> Inl (TypeError ''a.startedAt.localeCompare is not a function''))
      else (case getProp a ''model'' of
              Some (JStr m) \<Rightarrow> Inr (collate R m (templ (getProp b ''model'')))
            | _ \<Rightarrow> Inl (TypeError ''a.model.localeCompare is not a function'')))"

definition runLogFile :: "string \<Rightarrow> json \<Rightarrow> js_error + string" where
  "runLogFile sessionId run =
     (let p = optChain (getProp run ''log'') ''path''
      in if truthy p
         then (case p of
                 Some (JStr s) \<Rightarrow> Inr (if path_isAbsolute s then s
                                        else path_join (sessionDir sessionId) s)
               | _ \<Rightarrow> Inl (TypeError ''The path argument must be of type string''))
         else Inr (modelLogPath sessionId (getProp run ''model'')))"

fun logSections ::
  "fs \<Rightarrow> string \<Rightarrow> json list \<Rightarrow> string list \<Rightarrow> bool \<Rightarrow> js_error + (string list \<times> bool)" where
  "logSections fs sessionId [] sections hasContent = Inr (sections, hasContent)"
| "logSections fs sessionId (run # rest) sections hasContent =
     (case runLogFile sessionId run of
        Inl e \<Rightarrow> Inl e
      | Inr logFile \<Rightarrow>
          let body = (case readText fs logFile of Some s \<Rightarrow> s | None \<Rightarrow> [])
          in logSections fs sessionId rest
               (sections @ [trimEnd (''=== '' @ templ (getProp run ''model'') @ '' ===''
                                      @ [CHR 0x0A] @ body)])
               (hasContent \<or> length body > 0))"

definition readSessionLog :: "Engine \<Rightarrow> fs \<Rightarrow> string \<Rightarrow> js_error + string" where
  "readSessionLog R fs sessionId =
     (let runs = listModelRunFiles fs sessionId
      in if length runs = 0
         then (case readText fs (logPath sessionId) of Some s \<Rightarrow> Inr s | None \<Rightarrow> Inr [])
         else (case Array_sort R (compareRuns R) runs of
                 Inl e \<Rightarrow> Inl e
               | Inr ordered \<Rightarrow>
                   (case logSections fs sessionId ordered [] False of
                      Inl e \<Rightarrow> Inl e
                    | Inr (sections, hasContent) \<Rightarrow>
                        if \<not> hasContent
                        then (case readText fs (logPath sessionId) of
                                Some s \<Rightarrow> Inr s
                              | None \<Rightarrow> Inr (join [CHR 0x0A, CHR 0x0A] sections))
                        else Inr (join [CHR 0x0A, CHR 0x0A] sections))))"

section \<open>Session slugs (sessionManager.ts)\<close>

text \<open>
  \<open>String.prototype.toLowerCase\<close> on the code units below 256: the ASCII capitals and
  the Latin-1 capitals (all of \<open>0xC0..0xDE\<close> but the multiplication sign) move up by 32.
\<close>

definition toLowerCaseChar :: "char \<Rightarrow> char" where
  "toLowerCaseChar c =
     (let n = (of_char c :: nat)
      in if (65 \<le> n \<and> n \<le> 90) \<or> (192 \<le> n \<and> n \<le> 222 \<and> n \<noteq> 215)
         then char_of (n + 32) else c)"

definition toLowerCase :: "string \<Rightarrow> string" where
  "toLowerCase s = map toLowerCaseChar s"

text \<open>The character class \<open>[a-z0-9]\<close>.\<close>

definition isSlugChar :: "char \<Rightarrow> bool" where
  "isSlugChar c =
     ((of_char c :: nat) \<in> {97 .. 122} \<or> (of_char c :: nat) \<in> {48 .. 57})"

text \<open>
  \<open>String.prototype.split\<close> at a one-character separator, written for any class of
  separator characters: the pieces between consecutive separators, empty ones included.
\<close>

fun pieces :: "(char \<Rightarrow> bool) \<Rightarrow> string \<Rightarrow> string list" where
  "pieces sep [] = [[]]"
| "pieces sep (c # cs) =
     (if sep c then [] # pieces sep cs
      else (case pieces sep cs of w # ws \<Rightarrow> (c # w) # ws | [] \<Rightarrow> [[c]]))"

definition split :: "char \<Rightarrow> string \<Rightarrow> string list" where
  "split sep s = pieces (\<lambda>c. c = sep) s"

definition DEFAULT_SLUG :: string where
  "DEFAULT_SLUG = ''session''"

definition MAX_SLUG_WORDS :: nat where
  "MAX_SLUG_WORDS = 5"

definition MIN_CUSTOM_SLUG_WORDS :: nat where
  "MIN_CUSTOM_SLUG_WORDS = 3"

definition MAX_SLUG_WORD_LENGTH :: nat where
  "MAX_SLUG_WORD_LENGTH = 10"

text \<open>The text may be undefined (\<open>text?.toLowerCase() ?? ''\<close>).\<close>

definition slugify :: "string option \<Rightarrow> nat \<Rightarrow> string" where
  "slugify text maxWords =
     (let normalized = (case text of None \<Rightarrow> [] | Some t \<Rightarrow> toLowerCase t);
          words = matchAll isSlugChar normalized;
          trimmed = map (take MAX_SLUG_WORD_LENGTH) (take maxWords words)
      in if length trimmed > 0 then join ''-'' trimmed else DEFAULT_SLUG)"

definition countSlugWords :: "string \<Rightarrow> nat" where
  "countSlugWords slug = length (filter (\<lambda>w. w \<noteq> []) (split CHR ''-'' slug))"

definition normalizeCustomSlug :: "string \<Rightarrow> js_error + string" where
  "normalizeCustomSlug candidate =
     (let slug = slugify (Some candidate) MAX_SLUG_WORDS;
          wordCount = countSlugWords slug
      in if wordCount < MIN_CUSTOM_SLUG_WORDS \<or> wordCount > MAX_SLUG_WORDS
         then Inl (Error ''Custom slug must include between 3 and 5 words.'')
         else Inr slug)"

text \<open>A custom slug that is undefined or the empty string is falsy and is not used.\<close>

definition createSessionId :: "string option \<Rightarrow> string option \<Rightarrow> js_error + string" where
  "createSessionId prompt customSlug =
     (case customSlug of
        Some c \<Rightarrow> if c \<noteq> [] then normalizeCustomSlug c
                  else Inr (slugify prompt MAX_SLUG_WORDS)
      | None \<Rightarrow> Inr (slugify prompt MAX_SLUG_WORDS))"

text \<open>
  The spec's words for the slug: lower-case the prompt, extract the maximal alphanumeric
  runs (the non-empty pieces between the characters that are not alphanumeric), keep at
  most the first 5, truncate each to 10 characters, join with hyphens; no alphanumeric
  content gives the literal \<open>session\<close>.
\<close>

definition maximalRuns :: "(char \<Rightarrow> bool) \<Rightarrow> string \<Rightarrow> string list" where
  "maximalRuns P s = filter (\<lambda>w. w \<noteq> []) (pieces (\<lambda>c. \<not> P c) s)"

definition specSlug :: "string \<Rightarrow> string" where
  "specSlug prompt =
     (let kept = map (take 10) (take 5 (maximalRuns isSlugChar (toLowerCase prompt)))
      in if kept = [] then ''session'' else join ''-'' kept)"

section \<open>Reading attachment files (oracle/files.ts)\<close>

text \<open>
  What the file reader gets from outside: the \<open>fsModule\<close> (a \<open>stat\<close> or a read that
  rejects gives \<open>None\<close>), whether that module is the native file system, the \<open>path\<close>
  functions relative to the working directory, and the glob library. The expansion of the
  partitioned inputs into candidate paths (glob matching with \<open>.gitignore\<close> filtering on
  the native file system, recursive listing otherwise) and the test for a default-ignored
  ancestor directory are taken as given; a failure of the library or of the file system
  inside them is a system error with its code and detail. The message printed for a
  skipped path is not modelled.
\<close>

record Stats =
  st_isFile :: bool
  st_isDirectory :: bool
  st_size :: "nat option"

record Partitioned =
  globPatterns :: "string list"
  excludePatterns :: "string list"
  literalFiles :: "string list"
  literalDirectories :: "string list"

record FileEnv =
  fe_stat :: "string \<Rightarrow> Stats option"
  fe_readFile :: "string \<Rightarrow> string option"
  fe_native :: bool
  fe_resolve :: "string \<Rightarrow> string"
  fe_relative :: "string \<Rightarrow> string"
  fe_basename :: "string \<Rightarrow> string"
  fe_isDynamicPattern :: "string \<Rightarrow> bool"
  fe_expandWithNativeGlob :: "Partitioned \<Rightarrow> (string \<times> string) + string list"
  fe_expandWithCustomFs :: "Partitioned \<Rightarrow> (string \<times> string) + string list"
  fe_findIgnoredAncestor :: "string list \<Rightarrow> string list \<Rightarrow> string \<Rightarrow> string option"

definition MAX_FILE_SIZE_BYTES :: nat where
  "MAX_FILE_SIZE_BYTES = 1 * 1024 * 1024"

definition DEFAULT_IGNORED_DIRS :: "string list" where
  "DEFAULT_IGNORED_DIRS =
     [''node_modules'', ''dist'', ''coverage'', ''.git'', ''.turbo'', ''.next'', ''build'', ''tmp'']"

definition toPosix :: "string \<Rightarrow> string" where
  "toPosix v = map (\<lambda>c. if c = CHR 0x5C then CHR ''/'' else c) v"

definition normalizeGlob :: "FileEnv \<Rightarrow> string \<Rightarrow> string" where
  "normalizeGlob E pattern =
     (if pattern = [] then []
      else let n1 = (if path_isAbsolute pattern then fe_relative E pattern else pattern);
               n2 = toPosix n1
           in if prefix ''./'' n2 then drop 2 n2 else n2)"

fun partitionLoop :: "FileEnv \<Rightarrow> string list \<Rightarrow> Partitioned \<Rightarrow> js_error + Partitioned" where
  "partitionLoop E [] result = Inr result"
| "partitionLoop E (entry # rest) result =
     (let raw = trim entry
      in if raw = [] then partitionLoop E rest result
         else if prefix ''!'' raw
         then (let normalized = normalizeGlob E (drop 1 raw)
               in partitionLoop E rest
                    (if normalized \<noteq> []
                     then result \<lparr> excludePatterns := excludePatterns result @ [normalized] \<rparr>
                     else result))
         else if fe_isDynamicPattern E raw
         then partitionLoop E rest
                (result \<lparr> globPatterns := globPatterns result @ [normalizeGlob E raw] \<rparr>)
         else
           let absolutePath = (if path_isAbsolute raw then raw else fe_resolve E raw)
           in (case fe_stat E absolutePath of
                 None \<Rightarrow> Inl (FileValidationError (''Missing file or directory: '' @ raw)
                                (PathDetail absolutePath))
               | Some stats \<Rightarrow>
                   if st_isDirectory stats
                   then partitionLoop E rest
                          (result \<lparr> literalDirectories := literalDirectories result @ [absolutePath] \<rparr>)
                   else if st_isFile stats
                   then partitionLoop E rest
                          (result \<lparr> literalFiles := literalFiles result @ [absolutePath] \<rparr>)
                   else Inl (FileValidationError (''Not a file or directory: '' @ raw)
                               (PathDetail absolutePath))))"

definition partitionFileInputs :: "FileEnv \<Rightarrow> string list \<Rightarrow> js_error + Partitioned" where
  "partitionFileInputs E rawPaths =
     partitionLoop E rawPaths
       \<lparr> globPatterns = [], excludePatterns = [], literalFiles = [], literalDirectories = [] \<rparr>"

text \<open>
  \<open>toFixed(1)\<close> of the size divided by a unit for a unit that is a power of two: the quotient is an
  exact double, and the digits are those of the nearest multiple of one tenth, the larger
  one at a tie.
\<close>

definition toFixed1 :: "nat \<Rightarrow> nat \<Rightarrow> string" where
  "toFixed1 sz unit =
     (let n = (sz * 20 + unit) div (2 * unit)
      in showNat (n div 10) @ ''.'' @ showNat (n mod 10))"

definition formatBytes :: "nat \<Rightarrow> string" where
  "formatBytes sz =
     (if sz \<ge> 1024 * 1024 then toFixed1 sz (1024 * 1024) @ '' MB''
      else if sz \<ge> 1024 then toFixed1 sz 1024 @ '' KB''
      else showNat sz @ '' B'')"

definition relativePath :: "FileEnv \<Rightarrow> string \<Rightarrow> string" where
  "relativePath E targetPath =
     (let relative = fe_relative E targetPath in if relative \<noteq> [] then relative else targetPath)"

text \<open>The stage of \<open>readFiles\<close> from the partition to the candidates left by the ignore filter.\<close>

definition filteredCandidates ::
  "FileEnv \<Rightarrow> string list \<Rightarrow> js_error + (Partitioned \<times> string list)" where
  "filteredCandidates E filePaths =
     (case partitionFileInputs E filePaths of
        Inl e \<Rightarrow> Inl e
      | Inr partitioned \<Rightarrow>
          (case (if fe_native E
                 then (case fe_expandWithNativeGlob E partitioned of
                         Inl (code, detail) \<Rightarrow> Inl (SystemError code detail)
                       | Inr paths \<Rightarrow> Inr paths)
                 else if length (globPatterns partitioned) > 0
                         \<or> length (excludePatterns partitioned) > 0
                      then Inl (Error ''Glob patterns and exclusions are only supported for on-disk files.'')
                      else (case fe_expandWithCustomFs E partitioned of
                              Inl (code, detail) \<Rightarrow> Inl (SystemError code detail)
                            | Inr paths \<Rightarrow> Inr paths)) of
             Inl e \<Rightarrow> Inl e
           | Inr candidatePaths \<Rightarrow>
               let allowedLiteralDirs =
                     filter (\<lambda>dir. fe_basename E dir \<in> set DEFAULT_IGNORED_DIRS)
                            (map (fe_resolve E) (literalDirectories partitioned));
                   allowedLiteralFiles = map (fe_resolve E) (literalFiles partitioned);
                   allowedPaths = remdups (allowedLiteralDirs @ allowedLiteralFiles)
               in Inr (partitioned,
                       filter (\<lambda>filePath.
                                 fe_findIgnoredAncestor E allowedPaths candidatePaths filePath = None)
                              candidatePaths)))"

text \<open>The loop that stats every candidate and sorts it into oversized and accepted.\<close>

fun sizeLoop ::
  "FileEnv \<Rightarrow> nat \<Rightarrow> string list \<Rightarrow> string list \<Rightarrow> string list
   \<Rightarrow> js_error + (string list \<times> string list)" where
  "sizeLoop E maxFileSizeBytes [] oversized accepted = Inr (oversized, accepted)"
| "sizeLoop E maxFileSizeBytes (filePath # rest) oversized accepted =
     (case fe_stat E filePath of
        None \<Rightarrow> Inl (FileValidationError (''Missing file or directory: '' @ relativePath E filePath)
                       (PathDetail filePath))
      | Some stats \<Rightarrow>
          if \<not> st_isFile stats then sizeLoop E maxFileSizeBytes rest oversized accepted
          else (case st_size stats of
                  Some sz \<Rightarrow>
                    if maxFileSizeBytes \<noteq> 0 \<and> sz > maxFileSizeBytes
                    then sizeLoop E maxFileSizeBytes rest
                           (oversized @ [relativePath E filePath @ '' ('' @ formatBytes sz @ '')''])
                           accepted
                    else sizeLoop E maxFileSizeBytes rest oversized (accepted @ [filePath])
                | None \<Rightarrow> sizeLoop E maxFileSizeBytes rest oversized (accepted @ [filePath])))"

fun readLoop :: "FileEnv \<Rightarrow> string list \<Rightarrow> (string \<times> string) list \<Rightarrow> js_error + (string \<times> string) list" where
  "readLoop E [] files = Inr files"
| "readLoop E (filePath # rest) files =
     (case fe_readFile E filePath of
        None \<Rightarrow> Inl (SystemError ''ENOENT'' filePath)
      | Some content \<Rightarrow> readLoop E rest (files @ [(filePath, content)]))"

text \<open>An absent list of paths is \<open>None\<close>; a file content is the pair of its path and its text.\<close>

definition readFiles ::
  "FileEnv \<Rightarrow> string list option \<Rightarrow> nat \<Rightarrow> js_error + (string \<times> string) list" where
  "readFiles E filePaths maxFileSizeBytes =
     (case filePaths of
        None \<Rightarrow> Inr []
      | Some paths \<Rightarrow>
          if length paths = 0 then Inr []
          else (case filteredCandidates E paths of
                  Inl e \<Rightarrow> Inl e
                | Inr (partitioned, candidates) \<Rightarrow>
                    if length candidates = 0
                    then Inl (FileValidationError ''No files matched the provided --file patterns.''
                                (Patterns (globPatterns partitioned) (excludePatterns partitioned)))
                    else (case sizeLoop E maxFileSizeBytes candidates [] [] of
                            Inl e \<Rightarrow> Inl e
                          | Inr (oversized, accepted) \<Rightarrow>
                              if length oversized > 0
                              then Inl (FileValidationError
                                          (''The following files exceed the 1 MB limit:\<newline>- ''
                                           @ join ''\<newline>- '' oversized)
                                          (Oversized oversized maxFileSizeBytes))
                              else readLoop E accepted [])))"

text \<open>
  Used to state the size limit: a candidate is oversized when it is a regular file whose
  size is a number above the limit, and its entry in the error names its relative path
  and its formatted size.
\<close>

definition isOversized :: "FileEnv \<Rightarrow> nat \<Rightarrow> string \<Rightarrow> bool" where
  "isOversized E limit p =
     (case fe_stat E p of
        None \<Rightarrow> False
      | Some stats \<Rightarrow> st_isFile stats \<and> (case st_size stats of None \<Rightarrow> False | Some sz \<Rightarrow> sz > limit))"

definition isRegularFile :: "FileEnv \<Rightarrow> string \<Rightarrow> bool" where
  "isRegularFile E p = (case fe_stat E p of None \<Rightarrow> False | Some stats \<Rightarrow> st_isFile stats)"

definition oversizedEntry :: "FileEnv \<Rightarrow> string \<Rightarrow> string" where
  "oversizedEntry E p =
     relativePath E p @ '' (''
     @ formatBytes (case fe_stat E p of
                      Some stats \<Rightarrow> (case st_size stats of Some sz \<Rightarrow> sz | None \<Rightarrow> 0)
                    | None \<Rightarrow> 0)
     @ '')''"

section \<open>Notions used to state the order of the combined log\<close>




definition startKey :: "json \<Rightarrow> string" where
  "startKey run = templ (getProp run ''startedAt'')"


definition hasStart :: "json \<Rightarrow> bool" where
  "hasStart run = truthy (getProp run ''startedAt'')"



definition wellTypedRun :: "json \<Rightarrow> bool" where
  "wellTypedRun run =
     ((case getProp run ''model'' of Some (JStr m) \<Rightarrow> True | _ \<Rightarrow> False)
      \<and> (case getProp run ''startedAt'' of None \<Rightarrow> True | Some (JStr s) \<Rightarrow> True | _ \<Rightarrow> False)
      \<and> (case optChain (getProp run ''log'') ''path'' of Some (JStr p) \<Rightarrow> True | _ \<Rightarrow> False))"

section \<open>Example environment\<close>

text \<open>
  The date functions of the runtime on the two timestamps used in the examples:
  midnight of 1 January 2025 (UTC) and the instant 61 minutes later. A clock that does
  not advance during a call gives every entry the same two readings.
\<close>

definition exampleDates :: DateApi where
  "exampleDates =
     \<lparr> date_parse = (\<lambda>s. if s = ''2025-01-01T00:00:00.000Z'' then Some 1735689600000
                          else if s = ''2025-01-01T01:01:00.000Z'' then Some 1735693260000
                          else None),
       date_toISOString = (\<lambda>t. if t = 1735689600000 then ''2025-01-01T00:00:00.000Z''
                               else if t = 1735693260000 then ''2025-01-01T01:01:00.000Z''
                               else ''Invalid Date'') \<rparr>"

definition constClock :: "int \<Rightarrow> string \<Rightarrow> int \<times> int" where
  "constClock t entry = (t, t)"



text \<open>
  Three stores with one session \<open>s\<close>: the model runs \<open>gpt-5.1\<close> and \<open>gpt-5.1-pro\<close> started at
  the same instant; the model runs \<open>a\<close> and \<open>b\<close> started at different instants, \<open>b\<close> first;
  and the model runs \<open>a\<close> and \<open>b\<close> not started, with empty per-model logs and a legacy log.
\<close>

definition exampleTiedRuns :: fs where
  "exampleTiedRuns =
     \<lparr> fs_dirs = [''/home/user/.oracle/sessions'', ''/home/user/.oracle/sessions/s'',
                  ''/home/user/.oracle/sessions/s/models''],
       fs_files =
         [(''/home/user/.oracle/sessions/s/models/gpt-5.1.json'',
           Json (JObj [(''model'', JStr ''gpt-5.1''), (''status'', JStr ''completed''),
                       (''startedAt'', JStr ''2025-01-01T00:00:00.000Z'')])),
          (''/home/user/.oracle/sessions/s/models/gpt-5.1-pro.json'',
           Json (JObj [(''model'', JStr ''gpt-5.1-pro''), (''status'', JStr ''completed''),
                       (''startedAt'', JStr ''2025-01-01T00:00:00.000Z'')])),
          (''/home/user/.oracle/sessions/s/models/gpt-5.1.log'', Text ''base out''),
          (''/home/user/.oracle/sessions/s/models/gpt-5.1-pro.log'', Text ''pro out'')] \<rparr>"



definition contentOf :: "FileEnv \<Rightarrow> string \<Rightarrow> string" where
  "contentOf E p = (case fe_readFile E p of Some c \<Rightarrow> c | None \<Rightarrow> [])"

text \<open>
  A working directory \<open>/w\<close> on the native file system with a file of exactly 1 MB, one a
  byte larger, one of 1.55 MB and a small one; the sizes are those that \<open>stat\<close> reports, and
  the text of the large files is abbreviated to a placeholder. Literal files expand to
  themselves and dynamic patterns match nothing.
\<close>

definition exampleFileEnv :: FileEnv where
  "exampleFileEnv =
     \<lparr> fe_stat = (\<lambda>p. if p = ''/w/exact.bin''
                        then Some \<lparr> st_isFile = True, st_isDirectory = False, st_size = Some 1048576 \<rparr>
                        else if p = ''/w/big.bin''
                        then Some \<lparr> st_isFile = True, st_isDirectory = False, st_size = Some 1048577 \<rparr>
                        else if p = ''/w/clip.bin''
                        then Some \<lparr> st_isFile = True, st_isDirectory = False, st_size = Some 1625293 \<rparr>
                        else if p = ''/w/small.txt''
                        then Some \<lparr> st_isFile = True, st_isDirectory = False, st_size = Some 5 \<rparr>
                        else None),
       fe_readFile = (\<lambda>p. if p = ''/w/exact.bin'' then Some ''(1048576 bytes)''
                           else if p = ''/w/big.bin'' then Some ''(1048577 bytes)''
                           else if p = ''/w/clip.bin'' then Some ''(1625293 bytes)''
                           else if p = ''/w/small.txt'' then Some ''hello''
                           else None),
       fe_native = True,
       fe_resolve = (\<lambda>p. if path_isAbsolute p then p else path_join ''/w'' p),
       fe_relative = (\<lambda>p. if prefix ''/w/'' p then drop 3 p else p),
       fe_basename = (\<lambda>p. rev (takeWhile (\<lambda>c. c \<noteq> CHR ''/'') (rev p))),
       fe_isDynamicPattern = (\<lambda>s. CHR ''*'' \<in> set s),
       fe_expandWithNativeGlob = (\<lambda>partitioned. Inr (literalFiles partitioned)),
       fe_expandWithCustomFs = (\<lambda>partitioned. Inr (literalFiles partitioned)),
       fe_findIgnoredAncestor = (\<lambda>allowed candidates p. None) \<rparr>"

section \<open>Facts about the scans\<close>

lemma sublist_chain:
  assumes "sublist xs ys" and "sublist ys zs"
  shows "sublist xs zs"
proof -
  from assms obtain p1 s1 p2 s2 where "ys = p1 @ xs @ s1" "zs = p2 @ ys @ s2"
    by (auto simp: sublist_def)
  then have "zs = (p2 @ p1) @ xs @ (s1 @ s2)" by simp
  then show ?thesis unfolding sublist_def by blast
qed

lemma sublist_avoiding_split:
  assumes "sublist zs (xs @ d # ys)" and "d \<notin> set zs"
  shows "sublist zs xs \<or> sublist zs ys"
proof -
  from assms(1) obtain ps ss where eq: "xs @ d # ys = ps @ zs @ ss"
    by (auto simp: sublist_def)
  then consider us where "xs = ps @ us" "us @ d # ys = zs @ ss"
    | us where "xs @ us = ps" "d # ys = us @ zs @ ss"
    by (auto simp: append_eq_append_conv2)
  then show ?thesis
  proof cases
    case 1
    from 1(2) consider vs where "us = zs @ vs"
      | vs where "us @ vs = zs" "d # ys = vs @ ss"
      by (auto simp: append_eq_append_conv2)
    then show ?thesis
    proof cases
      case 1
      with \<open>xs = ps @ us\<close> show ?thesis by (auto simp: sublist_def)
    next
      case 2
      have "vs = []"
      proof (cases vs)
        case (Cons v vs')
        with 2 have "d \<in> set zs" by auto
        with assms(2) show ?thesis by simp
      qed simp
      with 2 \<open>xs = ps @ us\<close> have "xs = ps @ zs @ []" by simp
      then show ?thesis unfolding sublist_def by blast
    qed
  next
    case 2
    show ?thesis
    proof (cases us)
      case Nil
      with 2(2) have "d # ys = zs @ ss" by simp
      with assms(2) have "zs = []" by (cases zs) auto
      then show ?thesis by simp
    next
      case (Cons u us')
      with 2(2) have "ys = us' @ zs @ ss" by simp
      then show ?thesis unfolding sublist_def by blast
    qed
  qed
qed

lemma matchAll_member:
  "m \<in> set (matchAll P s) \<Longrightarrow> m \<noteq> [] \<and> (\<forall>c\<in>set m. P c) \<and> sublist m s"
proof (induction P s rule: matchAll.induct)
  case (1 P)
  then show ?case by simp
next
  case (2 P c cs)
  show ?case
  proof (cases "P c")
    case True
    from 2(3) True have "m = takeWhile P (c # cs) \<or> m \<in> set (matchAll P (dropWhile P cs))"
      by simp
    then show ?thesis
    proof
      assume m: "m = takeWhile P (c # cs)"
      have "c # cs = m @ dropWhile P (c # cs)" unfolding m by simp
      then have "sublist m (c # cs)" unfolding sublist_def by (metis append_Nil)
      moreover have "m \<noteq> []" using m True by simp
      moreover have "\<forall>x\<in>set m. P x" unfolding m by (auto dest: set_takeWhileD)
      ultimately show ?thesis by simp
    next
      assume "m \<in> set (matchAll P (dropWhile P cs))"
      with 2(1) True have *: "m \<noteq> [] \<and> (\<forall>c\<in>set m. P c) \<and> sublist m (dropWhile P cs)" by simp
      have "suffix (dropWhile P cs) (c # cs)"
        by (meson suffix_dropWhile suffix_order.trans suffix_ConsI suffix_order.refl)
      then have "sublist (dropWhile P cs) (c # cs)" by (rule suffix_imp_sublist)
      with * show ?thesis by (blast intro: sublist_chain)
    qed
  next
    case False
    with 2(2,3) have "m \<noteq> [] \<and> (\<forall>c\<in>set m. P c) \<and> sublist m cs" by simp
    then show ?thesis by (simp add: sublist_Cons_right)
  qed
qed

lemma matchAll_covers:
  "sublist zs s \<Longrightarrow> zs \<noteq> [] \<Longrightarrow> \<forall>c\<in>set zs. P c \<Longrightarrow> \<exists>m\<in>set (matchAll P s). sublist zs m"
proof (induction P s rule: matchAll.induct)
  case (1 P)
  then show ?case by simp
next
  case (2 P c cs)
  show ?case
  proof (cases "P c")
    case True
    show ?thesis
    proof (cases "dropWhile P cs")
      case Nil
      then have tw: "takeWhile P (c # cs) = c # cs" using True
        by (simp add: takeWhile_eq_all_conv)
      have mem: "takeWhile P (c # cs) \<in> set (matchAll P (c # cs))" using True by simp
      have "sublist zs (takeWhile P (c # cs))" using 2(3) by (simp only: tw)
      with mem show ?thesis by blast
    next
      case (Cons d ds)
      then have d: "\<not> P d" by (metis hd_dropWhile list.sel(1) list.distinct(1))
      have eq: "c # cs = takeWhile P (c # cs) @ d # ds"
        using Cons True by (metis dropWhile.simps(2) takeWhile_dropWhile_id)
      have "sublist zs (takeWhile P (c # cs) @ d # ds)"
        by (rule subst [OF eq, of "sublist zs"]) (rule 2(3))
      moreover from d 2(5) have "d \<notin> set zs" by blast
      ultimately have "sublist zs (takeWhile P (c # cs)) \<or> sublist zs ds"
        by (rule sublist_avoiding_split)
      then show ?thesis
      proof
        assume "sublist zs (takeWhile P (c # cs))"
        with True show ?thesis by auto
      next
        assume "sublist zs ds"
        then have "sublist zs (dropWhile P cs)" unfolding Cons by (simp add: sublist_Cons_right)
        with 2(1) True 2(4,5) obtain m where "m \<in> set (matchAll P (dropWhile P cs))" "sublist zs m"
          by blast
        with True show ?thesis by auto
      qed
    qed
  next
    case False
    with 2(5) have "c \<notin> set zs" by blast
    with 2(3) have "sublist zs [] \<or> sublist zs cs"
      using sublist_avoiding_split [of zs "[]" c cs] by simp
    with 2(4) have "sublist zs cs" by auto
    with 2(2) False 2(4,5) obtain m where "m \<in> set (matchAll P cs)" "sublist zs m" by blast
    with False show ?thesis by auto
  qed
qed


section \<open>Search capability gating\<close>

text \<open>
  Claim C8. The capability registry reports web search as unsupported exactly for the
  model names of the Anthropic family (the names beginning with \<open>claude\<close>) and as
  supported for every other name; and the native call parameters that the Anthropic
  adapter builds carry no tool, whatever tools the provider-agnostic request body holds.
\<close>

theorem search_capability_gating:
  "search (toolSupportForModel model) = (\<not> prefix ''claude'' model)
   \<and> params_tools (buildAnthropicParams body nativeModel) = None
   \<and> params_tools (buildAnthropicParams (body \<lparr> body_tools := Some [ToolOfType ''web_search_preview''] \<rparr>)
                      nativeModel) = None"
  by (simp add: toolSupportForModel_def buildAnthropicParams_def Let_def split: option.split)

section \<open>Cookie expiration normalization\<close>

























text \<open>
  The rounding on numbers that are not doubles: one tenth; and two integers halfway
  between doubles, which go to the neighbour with the even significand.
\<close>

lemma toDouble_examples:
  "toDouble (1 / 10) = Num (3602879701896397 / 36028797018963968)"
  "toDouble 9007199254740993 = Num 9007199254740992"
  "toDouble 9007199254740995 = Num 9007199254740996"
  "isDouble 1700000000499999"
  "toDouble (1700000000499999 / 1000000) = Num (7130316802097148 / 4194304)"
  "toDouble (7130316802097148 / 4194304 - 11644473600) = Num (- 19888947199 / 2)"
  by code_simp+




section \<open>Markdown fence safety\<close>

lemma foldl_max_length_ge:
  "a \<le> foldl (\<lambda>mx m. max mx (length m)) a ms"
  by (induction ms arbitrary: a) (auto intro: order_trans [OF max.cobounded1])

lemma foldl_max_length_bound:
  "m \<in> set ms \<Longrightarrow> length m \<le> foldl (\<lambda>mx m. max mx (length m)) a ms"
proof (induction ms arbitrary: a)
  case Nil
  then show ?case by simp
next
  case (Cons x xs)
  show ?case
  proof (cases "m = x")
    case True
    have "length x \<le> max a (length x)" by simp
    also have "\<dots> \<le> foldl (\<lambda>mx m. max mx (length m)) (max a (length x)) xs"
      by (rule foldl_max_length_ge)
    finally show ?thesis using True by simp
  next
    case False
    with Cons show ?thesis by simp
  qed
qed

lemma foldl_max_length_attained:
  "foldl (\<lambda>mx m. max mx (length m)) a ms = a
   \<or> (\<exists>m\<in>set ms. foldl (\<lambda>mx m. max mx (length m)) a ms = length m)"
proof (induction ms arbitrary: a)
  case Nil
  then show ?case by simp
next
  case (Cons x xs)
  from Cons [of "max a (length x)"] show ?case
    by (auto simp: max_def split: if_splits)
qed

lemma backtick_runs_finite: "finite {n. sublist (replicate n backtick) content}"
proof (rule finite_subset)
  show "{n. sublist (replicate n backtick) content} \<subseteq> {.. length content}"
    by (auto dest: sublist_length_le)
qed simp

lemma longestBacktickRun_scan:
  "longestBacktickRun content
   = foldl (\<lambda>mx m. max mx (length m)) 0 (matchAll (\<lambda>c. c = backtick) content)"
  (is "_ = ?mx")
unfolding longestBacktickRun_def
proof (rule Max_eqI [OF backtick_runs_finite])
  fix n
  assume "n \<in> {n. sublist (replicate n backtick) content}"
  then have sub: "sublist (replicate n backtick) content" by simp
  show "n \<le> ?mx"
  proof (cases "n = 0")
    case False
    then have "replicate n backtick \<noteq> []" by simp
    moreover have "\<forall>c\<in>set (replicate n backtick). c = backtick" by simp
    ultimately obtain m where m: "m \<in> set (matchAll (\<lambda>c. c = backtick) content)"
        and "sublist (replicate n backtick) m"
      using matchAll_covers [OF sub] by blast
    then have "n \<le> length m" by (auto dest: sublist_length_le)
    also have "\<dots> \<le> ?mx" using m by (rule foldl_max_length_bound)
    finally show ?thesis .
  qed simp
next
  show "?mx \<in> {n. sublist (replicate n backtick) content}"
    using foldl_max_length_attained [of 0 "matchAll (\<lambda>c. c = backtick) content"]
  proof (elim disjE bexE)
    assume "?mx = 0"
    then show ?thesis by simp
  next
    fix m
    assume m: "m \<in> set (matchAll (\<lambda>c. c = backtick) content)" and mx: "?mx = length m"
    from matchAll_member [OF m] have "\<forall>c\<in>set m. c = backtick" "sublist m content"
      by simp_all
    then have "replicate (length m) backtick = m" "sublist m content"
      by (simp_all add: replicate_length_same)
    then have "sublist (replicate (length m) backtick) content" by simp
    with mx show ?thesis by simp
  qed
qed

lemma longestBacktickRun_bound:
  "sublist (replicate n backtick) content \<Longrightarrow> n \<le> longestBacktickRun content"
  unfolding longestBacktickRun_def
  by (rule Max_ge [OF backtick_runs_finite]) simp

lemma longestBacktickRun_none:
  assumes "backtick \<notin> set content"
  shows "longestBacktickRun content = 0"
proof -
  have "{n. sublist (replicate n backtick) content} = {0}"
  proof (rule set_eqI)
    fix n
    show "n \<in> {n. sublist (replicate n backtick) content} \<longleftrightarrow> n \<in> {0}"
    proof (cases n)
      case (Suc k)
      have "\<not> sublist (replicate (Suc k) backtick) content"
      proof
        assume "sublist (replicate (Suc k) backtick) content"
        then have "set (replicate (Suc k) backtick) \<subseteq> set content" by (rule set_mono_sublist)
        with assms show False by simp
      qed
      with Suc show ?thesis by simp
    qed simp
  qed
  then show ?thesis by (simp add: longestBacktickRun_def)
qed

text \<open>
  Claim C7. The fence is a row of backticks whose length is the maximum of 3 and one more
  than the longest run of consecutive backticks in the content: content holding four
  backticks in a row gets a fence of at least five, content without backticks gets the
  fence of three, and the fence never occurs inside the content.
\<close>

theorem pickFence_collision_safe:
  "pickFence content = replicate (max 3 (longestBacktickRun content + 1)) backtick
   \<and> length (pickFence content) = max 3 (longestBacktickRun content + 1)
   \<and> (sublist (replicate 4 backtick) content \<longrightarrow> 5 \<le> length (pickFence content))
   \<and> (backtick \<notin> set content \<longrightarrow> pickFence content = replicate 3 backtick)
   \<and> \<not> sublist (pickFence content) content"
proof -
  have fence: "pickFence content = replicate (max 3 (longestBacktickRun content + 1)) backtick"
    by (simp add: pickFence_def Let_def longestBacktickRun_scan)
  have four: "5 \<le> length (pickFence content)" if "sublist (replicate 4 backtick) content"
    using longestBacktickRun_bound [OF that] by (simp add: fence)
  have none: "pickFence content = replicate 3 backtick" if "backtick \<notin> set content"
    using longestBacktickRun_none [OF that] by (simp add: fence)
  have safe: "\<not> sublist (pickFence content) content"
  proof
    assume "sublist (pickFence content) content"
    then have "max 3 (longestBacktickRun content + 1) \<le> longestBacktickRun content"
      unfolding fence by (rule longestBacktickRun_bound)
    then show False by simp
  qed
  from fence four none safe show ?thesis by simp
qed

theorem pickFence_collision_safe_witness:
  "sublist (replicate 4 backtick) (''a'' @ replicate 4 backtick @ ''b'')
   \<and> 5 \<le> length (pickFence (''a'' @ replicate 4 backtick @ ''b''))
   \<and> backtick \<notin> set ''const x = 1;''
   \<and> pickFence ''const x = 1;'' = replicate 3 backtick"
proof -
  have h1: "sublist (replicate 4 backtick) (''a'' @ replicate 4 backtick @ ''b'')"
    by (rule sublist_appendI)
  have h2: "backtick \<notin> set ''const x = 1;''" by (simp add: backtick_def)
  from h1 h2 pickFence_collision_safe [of "''a'' @ replicate 4 backtick @ ''b''"]
    pickFence_collision_safe [of "''const x = 1;''"]
  show ?thesis by blast
qed

section \<open>Slug generation\<close>

lemma pieces_not_Nil: "pieces sep s \<noteq> []"
  by (induction s) (auto split: list.split)

lemma pieces_run_prefix:
  "\<forall>c\<in>set w. \<not> sep c \<Longrightarrow>
   pieces sep (w @ rest) = (w @ hd (pieces sep rest)) # tl (pieces sep rest)"
proof (induction w)
  case Nil
  then show ?case using pieces_not_Nil [of sep rest] by simp
next
  case (Cons a w)
  then show ?case by simp
qed

lemma pieces_run_only: "\<forall>c\<in>set w. \<not> sep c \<Longrightarrow> pieces sep w = [w]"
  using pieces_run_prefix [of w sep "[]"] by simp

lemma matchAll_run_prefix:
  assumes "w \<noteq> []" and "\<forall>c\<in>set w. P c" and "rest = [] \<or> \<not> P (hd rest)"
  shows "matchAll P (w @ rest) = w # matchAll P rest"
proof -
  from assms(1) obtain a w' where w: "w = a # w'" by (cases w) auto
  have tw: "takeWhile P (w @ rest) = w"
    using assms(2,3) by (cases rest) (auto simp: takeWhile_append2 takeWhile_eq_all_conv)
  have dw: "dropWhile P (w @ rest) = rest"
    using assms(2,3) by (cases rest) (auto simp: dropWhile_append2)
  have "matchAll P (dropWhile P (w' @ rest)) = matchAll P rest"
    using dw assms(2) unfolding w by simp
  moreover have "takeWhile P (a # w' @ rest) = a # w'"
    using tw unfolding w by simp
  ultimately show ?thesis using assms(2) unfolding w by simp
qed

lemma matchAll_maximalRuns: "matchAll P s = maximalRuns P s"
proof (induction P s rule: matchAll.induct)
  case (1 P)
  show ?case by (simp add: maximalRuns_def)
next
  case (2 P c cs)
  show ?case
  proof (cases "P c")
    case False
    with 2(2) show ?thesis by (simp add: maximalRuns_def)
  next
    case True
    define w where "w = takeWhile P (c # cs)"
    define rest where "rest = dropWhile P cs"
    have split: "c # cs = w @ rest" using True by (simp add: w_def rest_def)
    have wP: "\<forall>x\<in>set w. \<not> \<not> P x" unfolding w_def by (auto dest: set_takeWhileD)
    have wne: "w \<noteq> []" using True by (simp add: w_def)
    have ih: "matchAll P rest = maximalRuns P rest" using 2(1) True by (simp add: rest_def)
    have lhs: "matchAll P (c # cs) = w # matchAll P rest"
      using True by (simp add: w_def rest_def)
    have "maximalRuns P (w @ rest) = w # maximalRuns P rest"
    proof (cases rest)
      case Nil
      then show ?thesis
        using wne by (simp add: maximalRuns_def pieces_run_only [OF wP])
    next
      case (Cons d ds)
      have "\<not> P d" using Cons unfolding rest_def by (metis hd_dropWhile list.sel(1) list.distinct(1))
      then show ?thesis
        using wne Cons by (simp add: maximalRuns_def pieces_run_prefix [OF wP])
    qed
    with lhs ih split show ?thesis by simp
  qed
qed

lemma matchAll_join:
  assumes "\<forall>w\<in>set ws. w \<noteq> [] \<and> (\<forall>c\<in>set w. P c)" and "\<not> P d"
  shows "matchAll P (join [d] ws) = ws"
  using assms(1)
proof (induction ws)
  case Nil
  show ?case by simp
next
  case (Cons x xs)
  show ?case
  proof (cases xs)
    case Nil
    from Cons(2) have "matchAll P (x @ []) = x # matchAll P []"
      by (intro matchAll_run_prefix) auto
    with Nil show ?thesis by simp
  next
    case (Cons y ys)
    from Cons.prems Cons.IH have ih: "matchAll P (join [d] xs) = xs" by simp
    from Cons.prems have "matchAll P (x @ d # join [d] xs) = x # matchAll P (d # join [d] xs)"
      using assms(2) by (intro matchAll_run_prefix) auto
    with ih assms(2) Cons show ?thesis by simp
  qed
qed

lemma isSlugChar_not_hyphen: "isSlugChar c \<Longrightarrow> c \<noteq> CHR ''-''"
  by (auto simp: isSlugChar_def)

lemma countSlugWords_scan: "countSlugWords slug = length (matchAll (\<lambda>c. c \<noteq> CHR ''-'') slug)"
  by (simp add: countSlugWords_def split_def matchAll_maximalRuns maximalRuns_def)

lemma slugify_specSlug: "slugify (Some prompt) MAX_SLUG_WORDS = specSlug prompt"
  by (simp add: slugify_def specSlug_def matchAll_maximalRuns Let_def MAX_SLUG_WORDS_def
        MAX_SLUG_WORD_LENGTH_def DEFAULT_SLUG_def)

lemma maximalRuns_member:
  "w \<in> set (maximalRuns P s) \<Longrightarrow> w \<noteq> [] \<and> (\<forall>c\<in>set w. P c) \<and> sublist w s"
  using matchAll_member [of w P s] by (simp add: matchAll_maximalRuns)

lemma countSlugWords_specSlug:
  "countSlugWords (specSlug s)
   = (if maximalRuns isSlugChar (toLowerCase s) = [] then 1
      else min 5 (length (maximalRuns isSlugChar (toLowerCase s))))"
proof (cases "maximalRuns isSlugChar (toLowerCase s) = []")
  case True
  have "countSlugWords ''session'' = 1" by (simp add: countSlugWords_def split_def)
  with True show ?thesis by (simp add: specSlug_def)
next
  case False
  define kept where "kept = map (take 10) (take 5 (maximalRuns isSlugChar (toLowerCase s)))"
  have ne: "kept \<noteq> []" using False by (simp add: kept_def)
  have "\<forall>w\<in>set kept. w \<noteq> [] \<and> (\<forall>c\<in>set w. c \<noteq> CHR ''-'')"
  proof
    fix w assume "w \<in> set kept"
    then obtain r where r: "r \<in> set (maximalRuns isSlugChar (toLowerCase s))" and w: "w = take 10 r"
      unfolding kept_def by (auto dest: in_set_takeD)
    from maximalRuns_member [OF r] have "r \<noteq> []" "\<forall>c\<in>set r. isSlugChar c" by simp_all
    then show "w \<noteq> [] \<and> (\<forall>c\<in>set w. c \<noteq> CHR ''-'')"
      unfolding w by (auto dest!: in_set_takeD dest: isSlugChar_not_hyphen)
  qed
  then have "matchAll (\<lambda>c. c \<noteq> CHR ''-'') (join ''-'' kept) = kept"
    by (intro matchAll_join) auto
  then have "countSlugWords (join ''-'' kept) = length kept" by (simp add: countSlugWords_scan)
  moreover have "specSlug s = join ''-'' kept" using ne by (simp add: specSlug_def kept_def Let_def)
  ultimately show ?thesis using False by (simp add: kept_def)
qed

text \<open>
  Claim C2, amended. The slug generated for a prompt is the spec's slug: the prompt
  lower-cased, its maximal alphanumeric runs extracted, the first 5 kept, each cut to 10
  characters, joined with hyphens, and the literal \<open>session\<close> when there is no
  alphanumeric content. A custom slug that is not the empty string gets the same
  normalization, and the call fails with the invalid-slug error exactly when the
  normalized slug has fewer than 3 or more than 5 hyphen-separated words; that count is
  the number of alphanumeric runs capped at 5 (1 for the fallback), so a custom slug of 3,
  4 or 5 words is accepted. An empty custom slug is not validated: the call succeeds with
  the slug of the prompt.
\<close>

theorem slug_generation:
  "slugify (Some prompt) MAX_SLUG_WORDS = specSlug prompt
   \<and> createSessionId (Some prompt) None = Inr (specSlug prompt)
   \<and> (maximalRuns isSlugChar (toLowerCase prompt) = [] \<longrightarrow>
        createSessionId (Some prompt) None = Inr ''session'')
   \<and> (custom \<noteq> [] \<longrightarrow>
        createSessionId anyPrompt (Some custom)
        = (if countSlugWords (specSlug custom) < 3 \<or> 5 < countSlugWords (specSlug custom)
           then Inl (Error ''Custom slug must include between 3 and 5 words.'')
           else Inr (specSlug custom)))
   \<and> countSlugWords (specSlug custom)
       = (if maximalRuns isSlugChar (toLowerCase custom) = [] then 1
          else min 5 (length (maximalRuns isSlugChar (toLowerCase custom))))
   \<and> createSessionId (Some prompt) (Some []) = Inr (specSlug prompt)"
proof -
  have e: "createSessionId (Some prompt) (Some []) = Inr (specSlug prompt)"
    by (simp add: createSessionId_def slugify_specSlug)
  have a: "createSessionId (Some prompt) None = Inr (specSlug prompt)"
    by (simp add: createSessionId_def slugify_specSlug)
  have b: "createSessionId (Some prompt) None = Inr ''session''"
    if "maximalRuns isSlugChar (toLowerCase prompt) = []"
    using that by (simp add: a specSlug_def)
  have c: "createSessionId anyPrompt (Some custom)
        = (if countSlugWords (specSlug custom) < 3 \<or> 5 < countSlugWords (specSlug custom)
           then Inl (Error ''Custom slug must include between 3 and 5 words.'')
           else Inr (specSlug custom))" if "custom \<noteq> []"
    using that
    by (simp add: createSessionId_def normalizeCustomSlug_def slugify_specSlug Let_def
          MIN_CUSTOM_SLUG_WORDS_def MAX_SLUG_WORDS_def [symmetric])
  from a b c e slugify_specSlug [of prompt] countSlugWords_specSlug [of custom]
  show ?thesis by blast
qed

theorem slug_generation_witness:
  "createSessionId (Some ''?! ...'') None = Inr ''session''
   \<and> createSessionId None (Some ''Fix the Login-bug'') = Inr ''fix-the-login-bug''
   \<and> createSessionId None (Some ''Two words'')
       = Inl (Error ''Custom slug must include between 3 and 5 words.'')"
proof -
  have h1: "maximalRuns isSlugChar (toLowerCase ''?! ...'') = []" by code_simp
  have h2: "''Fix the Login-bug'' \<noteq> []" by simp
  have h3: "''Two words'' \<noteq> []" by simp
  have v2: "specSlug ''Fix the Login-bug'' = ''fix-the-login-bug''" by code_simp
  have n2: "countSlugWords ''fix-the-login-bug'' = 4" by code_simp
  have v3: "specSlug ''Two words'' = ''two-words''" by code_simp
  have n3: "countSlugWords ''two-words'' = 2" by code_simp
  have "createSessionId (Some ''?! ...'') None = Inr ''session''"
    using slug_generation [of "''?! ...''" "''x''" None] h1 by blast
  moreover have "createSessionId None (Some ''Fix the Login-bug'') = Inr ''fix-the-login-bug''"
    using slug_generation [of "''x''" "''Fix the Login-bug''" None] h2
    unfolding v2 n2 by simp
  moreover have "createSessionId None (Some ''Two words'')
       = Inl (Error ''Custom slug must include between 3 and 5 words.'')"
    using slug_generation [of "''x''" "''Two words''" None] h3
    unfolding v3 n3 by simp
  ultimately show ?thesis by blast
qed

theorem createSessionId_empty_custom_counterexample:
  "createSessionId (Some ''hello world'') (Some []) = Inr ''hello-world''
   \<and> slugify (Some []) MAX_SLUG_WORDS = ''session''
   \<and> countSlugWords (slugify (Some []) MAX_SLUG_WORDS) = 1
   \<and> normalizeCustomSlug [] = Inl (Error ''Custom slug must include between 3 and 5 words.'')"
  by code_simp

section \<open>Unique session ids\<close>


lemma showNat_not_Nil: "showNat n \<noteq> []"
  by (subst showNat.simps) simp

lemma digit_char_inj: "a < 10 \<Longrightarrow> b < 10 \<Longrightarrow> char_of (48 + a :: nat) = (char_of (48 + b) :: char) \<Longrightarrow> a = b"
proof -
  assume a: "a < 10" and b: "b < 10" and e: "char_of (48 + a :: nat) = (char_of (48 + b) :: char)"
  have "of_char (char_of (48 + a :: nat) :: char) = (of_char (char_of (48 + b) :: char) :: nat)"
    using e by simp
  then have "(48 + a) mod 256 = (48 + b) mod 256" by (simp only: of_char_of)
  with a b show ?thesis by simp
qed

lemma showNat_inj: "showNat n = showNat m \<Longrightarrow> n = m"
proof (induction n arbitrary: m rule: showNat.induct)
  case (1 n)
  show ?case
  proof (cases "n < 10")
    case True
    show ?thesis
    proof (cases "m < 10")
      case mT: True
      from 1(2) True mT have "char_of (48 + n) = (char_of (48 + m) :: char)"
        by (simp add: showNat.simps [of n] showNat.simps [of m])
      with True mT show ?thesis by (intro digit_char_inj)
    next
      case False
      from 1(2) True False have "length (showNat (m div 10) @ [char_of (48 + m mod 10) :: char]) = 1"
        by (simp add: showNat.simps [of n] showNat.simps [of m])
      with showNat_not_Nil [of "m div 10"] show ?thesis by simp
    qed
  next
    case False
    show ?thesis
    proof (cases "m < 10")
      case True
      from 1(2) True False have "length (showNat (n div 10) @ [char_of (48 + n mod 10) :: char]) = 1"
        by (simp add: showNat.simps [of n] showNat.simps [of m])
      with showNat_not_Nil [of "n div 10"] show ?thesis by simp
    next
      case mF: False
      from 1(2) False mF have eq: "showNat (n div 10) = showNat (m div 10)"
        and d: "char_of (48 + n mod 10) = (char_of (48 + m mod 10) :: char)"
        by (simp_all add: showNat.simps [of n] showNat.simps [of m])
      from 1(1) [OF False eq] have "n div 10 = m div 10" .
      moreover from d have "n mod 10 = m mod 10" by (intro digit_char_inj) simp_all
      ultimately show ?thesis by (metis div_mult_mod_eq)
    qed
  qed
qed

lemma sessionDir_inj: "sessionDir a = sessionDir b \<Longrightarrow> a = b"
  by (simp add: sessionDir_def path_join_def)

lemma candidate_inj: "inj (\<lambda>k. sessionDir (baseSlug @ ''-'' @ showNat k))"
  by (rule injI) (auto dest: sessionDir_inj showNat_inj)

lemma existing_finite: "finite {p. fileExists fs p}"
proof -
  have "{p. fileExists fs p} = set (fs_dirs fs) \<union> fst ` set (fs_files fs)"
    by (auto simp: fileExists_def)
  then show ?thesis by simp
qed

lemma taken_suffixes_finite:
  "finite {k. fileExists fs (sessionDir (baseSlug @ ''-'' @ showNat k))}"
proof -
  have "{k. fileExists fs (sessionDir (baseSlug @ ''-'' @ showNat k))}
        = (\<lambda>k. sessionDir (baseSlug @ ''-'' @ showNat k)) -` {p. fileExists fs p}"
    by auto
  then show ?thesis
    by (simp only: finite_vimageI [OF existing_finite candidate_inj])
qed

lemma first_free_suffix:
  "\<exists>k\<ge>2. \<not> fileExists fs (sessionDir (baseSlug @ ''-'' @ showNat k))
          \<and> (\<forall>j. 2 \<le> j \<and> j < k \<longrightarrow> fileExists fs (sessionDir (baseSlug @ ''-'' @ showNat j)))"
proof -
  let ?free = "\<lambda>k. 2 \<le> k \<and> \<not> fileExists fs (sessionDir (baseSlug @ ''-'' @ showNat k))"
  from taken_suffixes_finite [of fs baseSlug]
  obtain m where m: "\<forall>k\<in>{k. fileExists fs (sessionDir (baseSlug @ ''-'' @ showNat k))}. k \<le> m"
    by (auto simp: finite_nat_set_iff_bounded_le)
  have ex: "?free (max 2 (Suc m))"
  proof -
    have "\<not> fileExists fs (sessionDir (baseSlug @ ''-'' @ showNat (max 2 (Suc m))))"
    proof
      assume "fileExists fs (sessionDir (baseSlug @ ''-'' @ showNat (max 2 (Suc m))))"
      with m have "max 2 (Suc m) \<le> m" by blast
      then show False by simp
    qed
    then show ?thesis by simp
  qed
  define k where "k = (LEAST k. ?free k)"
  have "?free k" unfolding k_def using ex by (rule LeastI)
  moreover have "\<forall>j. 2 \<le> j \<and> j < k \<longrightarrow> fileExists fs (sessionDir (baseSlug @ ''-'' @ showNat j))"
  proof (intro allI impI)
    fix j assume j: "2 \<le> j \<and> j < k"
    then have "\<not> ?free j" unfolding k_def using not_less_Least by blast
    with j show "fileExists fs (sessionDir (baseSlug @ ''-'' @ showNat j))" by simp
  qed
  ultimately show ?thesis by blast
qed

lemma uniqueLoop_free:
  "\<not> fileExists fs (sessionDir candidate) \<Longrightarrow> uniqueLoop fs baseSlug candidate s = Some candidate"
  by (subst uniqueLoop.simps) simp

lemma uniqueLoop_taken:
  "fileExists fs (sessionDir candidate) \<Longrightarrow>
   uniqueLoop fs baseSlug candidate s
   = uniqueLoop fs baseSlug (baseSlug @ ''-'' @ showNat s) (s + 1)"
  by (subst uniqueLoop.simps) simp

lemma uniqueLoop_runs:
  assumes "fileExists fs (sessionDir candidate)"
    and "\<forall>j. s \<le> j \<and> j < k \<longrightarrow> fileExists fs (sessionDir (baseSlug @ ''-'' @ showNat j))"
    and "\<not> fileExists fs (sessionDir (baseSlug @ ''-'' @ showNat k))"
    and "s \<le> k"
  shows "uniqueLoop fs baseSlug candidate s = Some (baseSlug @ ''-'' @ showNat k)"
  using assms
proof (induction "k - s" arbitrary: s candidate)
  case 0
  then have sk: "s = k" by simp
  have "uniqueLoop fs baseSlug candidate s
        = uniqueLoop fs baseSlug (baseSlug @ ''-'' @ showNat s) (s + 1)"
    using 0(2) by (rule uniqueLoop_taken)
  also have "\<dots> = Some (baseSlug @ ''-'' @ showNat s)"
    using 0(4) unfolding sk by (rule uniqueLoop_free)
  finally show ?case unfolding sk .
next
  case (Suc d)
  then have lt: "s < k" by simp
  with Suc(4) have ex: "fileExists fs (sessionDir (baseSlug @ ''-'' @ showNat s))" by simp
  have "uniqueLoop fs baseSlug (baseSlug @ ''-'' @ showNat s) (s + 1) = Some (baseSlug @ ''-'' @ showNat k)"
  proof (rule Suc(1))
    show "d = k - (s + 1)" using Suc(2) by simp
    show "fileExists fs (sessionDir (baseSlug @ ''-'' @ showNat s))" by (rule ex)
    show "\<forall>j. s + 1 \<le> j \<and> j < k \<longrightarrow> fileExists fs (sessionDir (baseSlug @ ''-'' @ showNat j))"
      using Suc(4) by simp
    show "\<not> fileExists fs (sessionDir (baseSlug @ ''-'' @ showNat k))" by (rule Suc(5))
    show "s + 1 \<le> k" using lt by simp
  qed
  then show ?case using uniqueLoop_taken [OF Suc(3), of baseSlug s] by simp
qed

lemma ancestors_shorter: "q \<in> set (ancestors p) \<Longrightarrow> q = ''/'' \<or> length q < length p"
  by (auto simp: ancestors_def)

lemma sessionDir_length: "length (sessionDir a) = length SESSIONS_DIR + 1 + length a"
  by (simp add: sessionDir_def path_join_def)

lemma sessionDir_not_root: "sessionDir a \<noteq> ''/''"
  by (simp add: sessionDir_def path_join_def SESSIONS_DIR_def)

lemma ensureDir_exists:
  "ensureDir fs d = Inr fs' \<Longrightarrow>
   fileExists fs' p = (fileExists fs p \<or> p = d \<or> p \<in> set (ancestors d))"
  by (auto simp: ensureDir_def fileExists_def split: if_splits)


lemma showNat_2: "showNat 2 = ''2''" by code_simp
lemma showNat_3: "showNat 3 = ''3''" by code_simp

text \<open>
  Claim C6. The session id is the base slug when nothing exists at its directory; otherwise
  it is the base slug with the suffix \<open>-k\<close> for the least \<open>k\<close> from 2 on whose directory
  does not exist, and the loop always ends with that id. Hence, base slug and its \<open>-2\<close>
  and \<open>-3\<close> forms being free at first, three sessions created one after another from the
  same base slug (each creation making the directory of its id) get the base slug, then
  the suffix \<open>-2\<close>, then the suffix \<open>-3\<close>.
\<close>

theorem ensureUniqueSessionId_first_free:
  "(\<not> fileExists fs (sessionDir baseSlug) \<longrightarrow> ensureUniqueSessionId fs baseSlug = Some baseSlug)
   \<and> (fileExists fs (sessionDir baseSlug) \<longrightarrow>
        (\<exists>k\<ge>2. ensureUniqueSessionId fs baseSlug = Some (baseSlug @ ''-'' @ showNat k)
               \<and> \<not> fileExists fs (sessionDir (baseSlug @ ''-'' @ showNat k))
               \<and> (\<forall>j. 2 \<le> j \<and> j < k \<longrightarrow>
                      fileExists fs (sessionDir (baseSlug @ ''-'' @ showNat j)))))
   \<and> (\<not> fileExists fs (sessionDir baseSlug)
        \<and> \<not> fileExists fs (sessionDir (baseSlug @ ''-2''))
        \<and> \<not> fileExists fs (sessionDir (baseSlug @ ''-3''))
        \<and> ensureDir fs (sessionDir baseSlug) = Inr fs1
        \<and> ensureDir fs1 (sessionDir (baseSlug @ ''-2'')) = Inr fs2 \<longrightarrow>
        ensureUniqueSessionId fs baseSlug = Some baseSlug
        \<and> ensureUniqueSessionId fs1 baseSlug = Some (baseSlug @ ''-2'')
        \<and> ensureUniqueSessionId fs2 baseSlug = Some (baseSlug @ ''-3''))"
proof -
  have free: "ensureUniqueSessionId f baseSlug = Some baseSlug"
    if "\<not> fileExists f (sessionDir baseSlug)" for f
    using that by (simp add: ensureUniqueSessionId_def uniqueLoop_free)
  have taken: "\<exists>k\<ge>2. ensureUniqueSessionId fs baseSlug = Some (baseSlug @ ''-'' @ showNat k)
               \<and> \<not> fileExists fs (sessionDir (baseSlug @ ''-'' @ showNat k))
               \<and> (\<forall>j. 2 \<le> j \<and> j < k \<longrightarrow>
                      fileExists fs (sessionDir (baseSlug @ ''-'' @ showNat j)))"
    if ex: "fileExists fs (sessionDir baseSlug)"
  proof -
    from first_free_suffix [of fs baseSlug] obtain k where k: "2 \<le> k"
      "\<not> fileExists fs (sessionDir (baseSlug @ ''-'' @ showNat k))"
      "\<forall>j. 2 \<le> j \<and> j < k \<longrightarrow> fileExists fs (sessionDir (baseSlug @ ''-'' @ showNat j))"
      by blast
    from uniqueLoop_runs [OF ex k(3) k(2) k(1)]
    have "ensureUniqueSessionId fs baseSlug = Some (baseSlug @ ''-'' @ showNat k)"
      by (simp add: ensureUniqueSessionId_def)
    with k show ?thesis by blast
  qed
  have three: "ensureUniqueSessionId fs baseSlug = Some baseSlug
        \<and> ensureUniqueSessionId fs1 baseSlug = Some (baseSlug @ ''-2'')
        \<and> ensureUniqueSessionId fs2 baseSlug = Some (baseSlug @ ''-3'')"
    if f0: "\<not> fileExists fs (sessionDir baseSlug)"
      and f2: "\<not> fileExists fs (sessionDir (baseSlug @ ''-2''))"
      and f3: "\<not> fileExists fs (sessionDir (baseSlug @ ''-3''))"
      and d1: "ensureDir fs (sessionDir baseSlug) = Inr fs1"
      and d2: "ensureDir fs1 (sessionDir (baseSlug @ ''-2'')) = Inr fs2"
  proof -
    have longer: "p \<notin> set (ancestors (sessionDir a))"
      if "length a \<le> length b" "p = sessionDir b" for p a b
    proof
      assume "p \<in> set (ancestors (sessionDir a))"
      then have "p = ''/'' \<or> length p < length (sessionDir a)" by (rule ancestors_shorter)
      with that show False by (auto simp: sessionDir_length sessionDir_not_root)
    qed
    have e1: "fileExists fs1 p = (fileExists fs p \<or> p = sessionDir baseSlug
                \<or> p \<in> set (ancestors (sessionDir baseSlug)))" for p
      using d1 by (rule ensureDir_exists)
    have e2: "fileExists fs2 p = (fileExists fs1 p \<or> p = sessionDir (baseSlug @ ''-2'')
                \<or> p \<in> set (ancestors (sessionDir (baseSlug @ ''-2''))))" for p
      using d2 by (rule ensureDir_exists)
    have t1: "fileExists fs1 (sessionDir baseSlug)" by (simp add: e1)
    have n12: "\<not> fileExists fs1 (sessionDir (baseSlug @ ''-2''))"
      using f2 longer [of baseSlug "baseSlug @ ''-2''"]
      by (auto simp: e1 dest: sessionDir_inj)
    have n13: "\<not> fileExists fs1 (sessionDir (baseSlug @ ''-3''))"
      using f3 longer [of baseSlug "baseSlug @ ''-3''"]
      by (auto simp: e1 dest: sessionDir_inj)
    have t2: "fileExists fs2 (sessionDir baseSlug)" using t1 by (simp add: e2)
    have t22: "fileExists fs2 (sessionDir (baseSlug @ ''-2''))" by (simp add: e2)
    have n23: "\<not> fileExists fs2 (sessionDir (baseSlug @ ''-3''))"
      using n13 longer [of "baseSlug @ ''-2''" "baseSlug @ ''-3''"]
      by (auto simp: e2 dest: sessionDir_inj)
    have "uniqueLoop fs1 baseSlug baseSlug 2 = Some (baseSlug @ ''-'' @ showNat 2)"
    proof (rule uniqueLoop_runs [OF t1])
      show "\<forall>j. 2 \<le> j \<and> j < 2 \<longrightarrow> fileExists fs1 (sessionDir (baseSlug @ ''-'' @ showNat j))"
        by auto
      show "\<not> fileExists fs1 (sessionDir (baseSlug @ ''-'' @ showNat 2))"
        using n12 by (simp add: showNat_2)
      show "(2 :: nat) \<le> 2" by simp
    qed
    moreover have "uniqueLoop fs2 baseSlug baseSlug 2 = Some (baseSlug @ ''-'' @ showNat 3)"
    proof (rule uniqueLoop_runs [OF t2])
      show "\<forall>j. 2 \<le> j \<and> j < 3 \<longrightarrow> fileExists fs2 (sessionDir (baseSlug @ ''-'' @ showNat j))"
      proof (intro allI impI)
        fix j :: nat assume "2 \<le> j \<and> j < 3"
        then have "j = 2" by simp
        with t22 show "fileExists fs2 (sessionDir (baseSlug @ ''-'' @ showNat j))"
          by (simp add: showNat_2)
      qed
      show "\<not> fileExists fs2 (sessionDir (baseSlug @ ''-'' @ showNat 3))"
        using n23 by (simp add: showNat_3)
      show "(2 :: nat) \<le> 3" by simp
    qed
    ultimately show ?thesis
      using free [OF f0] by (simp add: ensureUniqueSessionId_def showNat_2 showNat_3)
  qed
  from free [of fs] taken three show ?thesis by blast
qed

theorem ensureUniqueSessionId_first_free_witness:
  "ensureUniqueSessionId
     \<lparr> fs_dirs = [''/'', ''/home'', ''/home/user'', ''/home/user/.oracle'',
                  ''/home/user/.oracle/sessions''], fs_files = [] \<rparr> ''demo'' = Some ''demo''
   \<and> ensureUniqueSessionId
     \<lparr> fs_dirs = [''/'', ''/home'', ''/home/user'', ''/home/user/.oracle'',
                  ''/home/user/.oracle/sessions'', ''/home/user/.oracle/sessions/demo''],
        fs_files = [] \<rparr> ''demo'' = Some ''demo-2''
   \<and> ensureUniqueSessionId
     \<lparr> fs_dirs = [''/'', ''/home'', ''/home/user'', ''/home/user/.oracle'',
                  ''/home/user/.oracle/sessions'', ''/home/user/.oracle/sessions/demo'',
                  ''/home/user/.oracle/sessions/demo-2''],
        fs_files = [] \<rparr> ''demo'' = Some ''demo-3''
   \<and> (\<exists>k\<ge>2. ensureUniqueSessionId
     \<lparr> fs_dirs = [''/'', ''/home'', ''/home/user'', ''/home/user/.oracle'',
                  ''/home/user/.oracle/sessions'', ''/home/user/.oracle/sessions/demo''],
        fs_files = [] \<rparr> ''demo'' = Some (''demo'' @ ''-'' @ showNat k))"
  (is "ensureUniqueSessionId ?A _ = _ \<and> ensureUniqueSessionId ?B _ = _
       \<and> ensureUniqueSessionId ?C _ = _ \<and> _")
proof -
  have f0: "\<not> fileExists ?A (sessionDir ''demo'')" by code_simp
  have f2: "\<not> fileExists ?A (sessionDir (''demo'' @ ''-2''))" by code_simp
  have f3: "\<not> fileExists ?A (sessionDir (''demo'' @ ''-3''))" by code_simp
  have d1: "ensureDir ?A (sessionDir ''demo'') = Inr ?B" by code_simp
  have d2: "ensureDir ?B (sessionDir (''demo'' @ ''-2'')) = Inr ?C" by code_simp
  have t1: "fileExists ?B (sessionDir ''demo'')" by code_simp
  from ensureUniqueSessionId_first_free [of ?A "''demo''" ?B ?C] f0 f2 f3 d1 d2
  have "ensureUniqueSessionId ?A ''demo'' = Some ''demo''
        \<and> ensureUniqueSessionId ?B ''demo'' = Some (''demo'' @ ''-2'')
        \<and> ensureUniqueSessionId ?C ''demo'' = Some (''demo'' @ ''-3'')"
    by blast
  moreover from ensureUniqueSessionId_first_free [of ?B "''demo''" ?B ?C] t1
  have "\<exists>k\<ge>2. ensureUniqueSessionId ?B ''demo'' = Some (''demo'' @ ''-'' @ showNat k)"
    by blast
  ultimately show ?thesis by simp
qed

section \<open>Metadata update\<close>
















section \<open>Zombie sessions\<close>

lemma zombie_fields_status:
  "map_of (assignAll kvs [(''status'', a), (''errorMessage'', b), (''completedAt'', c)]) ''status''
   = Some a"
  by (simp add: assignAll_def update_conv')

lemma markZombie_read:
  "markZombie D now False meta fs = Inr (m, fs') \<Longrightarrow> isZombie D now m = Inr False \<and> fs' = fs"
proof -
  assume r: "markZombie D now False meta fs = Inr (m, fs')"
  show ?thesis
  proof (cases "isZombie D now meta")
    case (Inl e)
    with r show ?thesis by (simp add: markZombie_def)
  next
    case (Inr z)
    show ?thesis
    proof (cases z)
      case False
      with r Inr show ?thesis by (simp add: markZombie_def)
    next
      case True
      with r Inr have m: "m = JObj (assignAll (spread meta)
                  [(''status'', JStr ''error''),
                   (''errorMessage'', JStr ''Session marked as zombie (>60m stale)''),
                   (''completedAt'', JStr (date_toISOString D now))])" and "fs' = fs"
        by (simp_all add: markZombie_def Let_def)
      then show ?thesis
        by (simp add: isZombie_def getProp_def zombie_fields_status)
    qed
  qed
qed

lemma read_not_zombie:
  assumes "readSessionMetadata D t fs entry = Some m"
  shows "isZombie D t m = Inr False"
proof -
  from assms have "readModernSessionMetadata D t fs entry = Some m
                   \<or> readLegacySessionMetadata D t fs entry = Some m"
    by (auto simp: readSessionMetadata_def Let_def split: if_splits)
  then obtain x f where "markZombie D t False x fs = Inr (m, f)"
    by (auto simp: readModernSessionMetadata_def readLegacySessionMetadata_def
             split: option.splits if_splits sum.splits)
  then show ?thesis by (auto dest: markZombie_read)
qed

lemma listLoop_idle:
  "\<exists>metas'. listLoop D (constClock t) entries metas fs = Inr (metas', fs)"
proof (induction entries arbitrary: metas)
  case Nil
  show ?case by simp
next
  case (Cons entry rest)
  show ?case
  proof (cases "readSessionMetadata D t fs entry")
    case None
    with Cons show ?thesis by (simp add: constClock_def)
  next
    case (Some m)
    then have "isZombie D t m = Inr False" by (rule read_not_zombie)
    then have "markZombie D t True m fs = Inr (m, fs)" by (simp add: markZombie_def)
    with Some Cons [of "metas @ [m]"] show ?thesis by (simp add: constClock_def)
  qed
qed

lemma listSessionsMetadata_never_persists:
  assumes "listSessionsMetadata D (constClock t) R fs = Inr (metas, fs')"
  shows "fs_files fs' = fs_files fs"
proof -
  from assms obtain fs1 where 1: "ensureSessionStorage fs = Inr fs1"
    by (auto simp: listSessionsMetadata_def split: sum.splits)
  define entries where "entries = (case readdir fs1 SESSIONS_DIR of None \<Rightarrow> [] | Some es \<Rightarrow> es)"
  from listLoop_idle [of D t entries "[]" fs1] obtain ms
    where 2: "listLoop D (constClock t) entries [] fs1 = Inr (ms, fs1)" by blast
  from assms 1 2 have "fs' = fs1"
    by (auto simp: listSessionsMetadata_def Let_def entries_def split: sum.splits)
  moreover from 1 have "fs_files fs1 = fs_files fs"
    by (auto simp: ensureSessionStorage_def ensureDir_def split: if_splits)
  ultimately show ?thesis by simp
qed

lemma isZombie_exactly:
  assumes "meta \<noteq> JNull"
  shows "isZombie D now meta
         = Inr (getProp meta ''status'' = Some (JStr ''running'')
                \<and> truthy (nullish (getProp meta ''startedAt'') (getProp meta ''createdAt''))
                \<and> (\<exists>startedMs.
                      date_parse D (templ (nullish (getProp meta ''startedAt'')
                                                   (getProp meta ''createdAt''))) = Some startedMs
                      \<and> now - startedMs > 60 * 60 * 1000))"
  using assms by (auto simp: isZombie_def Let_def ZOMBIE_MAX_AGE_MS_def split: option.splits)

lemma zombie_read_examples:
  "readSessionMetadata exampleDates 1735693260000
     \<lparr> fs_dirs = [''/home/user/.oracle/sessions'', ''/home/user/.oracle/sessions/stale''],
        fs_files = [(''/home/user/.oracle/sessions/stale/meta.json'',
                     Json (JObj [(''id'', JStr ''stale''), (''status'', JStr ''running''),
                                 (''startedAt'', JStr ''2025-01-01T00:00:00.000Z'')]))] \<rparr> ''stale''
   = Some (JObj [(''id'', JStr ''stale''), (''status'', JStr ''error''),
                 (''startedAt'', JStr ''2025-01-01T00:00:00.000Z''),
                 (''errorMessage'', JStr ''Session marked as zombie (>60m stale)''),
                 (''completedAt'', JStr ''2025-01-01T01:01:00.000Z'')])
   \<and> readSessionMetadata exampleDates 1735693140000
     \<lparr> fs_dirs = [''/home/user/.oracle/sessions'', ''/home/user/.oracle/sessions/stale''],
        fs_files = [(''/home/user/.oracle/sessions/stale/meta.json'',
                     Json (JObj [(''id'', JStr ''stale''), (''status'', JStr ''running''),
                                 (''startedAt'', JStr ''2025-01-01T00:00:00.000Z'')]))] \<rparr> ''stale''
   = Some (JObj [(''id'', JStr ''stale''), (''status'', JStr ''running''),
                 (''startedAt'', JStr ''2025-01-01T00:00:00.000Z'')])"
  by code_simp

text \<open>
  Claim C1. A running session 61 minutes old is listed with status \<open>error\<close>, the zombie
  message and a completion time, as the claim says; but the listing does not write the
  corrected record back: the read inside the listing has already reclassified the record,
  so the check that would persist it finds status \<open>error\<close> and returns without writing.
  The metadata file still says \<open>running\<close> after the listing.
\<close>

theorem listing_does_not_persist_zombie:
  "listSessionsMetadata exampleDates (constClock 1735693260000) R
     \<lparr> fs_dirs = [''/'', ''/home'', ''/home/user'', ''/home/user/.oracle'',
                  ''/home/user/.oracle/sessions'', ''/home/user/.oracle/sessions/stale''],
        fs_files = [(''/home/user/.oracle/sessions/stale/meta.json'',
                     Json (JObj [(''id'', JStr ''stale''), (''status'', JStr ''running''),
                                 (''createdAt'', JStr ''2025-01-01T00:00:00.000Z''),
                                 (''startedAt'', JStr ''2025-01-01T00:00:00.000Z'')]))] \<rparr>
   = Inr ([JObj [(''id'', JStr ''stale''), (''status'', JStr ''error''),
                 (''createdAt'', JStr ''2025-01-01T00:00:00.000Z''),
                 (''startedAt'', JStr ''2025-01-01T00:00:00.000Z''),
                 (''errorMessage'', JStr ''Session marked as zombie (>60m stale)''),
                 (''completedAt'', JStr ''2025-01-01T01:01:00.000Z'')]],
          \<lparr> fs_dirs = [''/'', ''/home'', ''/home/user'', ''/home/user/.oracle'',
                  ''/home/user/.oracle/sessions'', ''/home/user/.oracle/sessions/stale''],
             fs_files = [(''/home/user/.oracle/sessions/stale/meta.json'',
                     Json (JObj [(''id'', JStr ''stale''), (''status'', JStr ''running''),
                                 (''createdAt'', JStr ''2025-01-01T00:00:00.000Z''),
                                 (''startedAt'', JStr ''2025-01-01T00:00:00.000Z'')]))] \<rparr>)"
  by code_simp

section \<open>Order of the combined log\<close>














lemma compareRuns_started:
  assumes "wellTypedRun a" and "hasStart a" and "hasStart b"
  shows "compareRuns R a b = Inr (collate R (startKey a) (startKey b))"
  using assms
  by (auto simp: compareRuns_def wellTypedRun_def hasStart_def startKey_def truthy_def templ_def
           split: option.splits json.splits)





lemma cmpNotAfter_iff: "cmpNotAfter cmp a b \<longleftrightarrow> (\<exists>c. cmp a b = Inr c \<and> c \<le> 0)"
  by (cases "cmp a b") (simp_all add: cmpNotAfter_def)

lemma cmpAfter_iff: "cmpAfter cmp a b \<longleftrightarrow> (\<exists>c. cmp a b = Inr c \<and> 0 < c)"
  by (cases "cmp a b") (simp_all add: cmpAfter_def)

lemma cmpBefore_iff: "cmpBefore cmp a b \<longleftrightarrow> (\<exists>c. cmp a b = Inr c \<and> c < 0)"
  by (cases "cmp a b") (simp_all add: cmpBefore_def)




text \<open>
  Two runs started at the same instant compare as equal in every collation, so they stay
  in the order of the directory listing, \<open>gpt-5.1-pro.json\<close> before \<open>gpt-5.1.json\<close>,
  whatever the engine.
\<close>

lemma tied_runs_any_collation:
  assumes z: "collate R ''2025-01-01T00:00:00.000Z'' ''2025-01-01T00:00:00.000Z'' = 0"
  shows "readSessionLog R exampleTiedRuns ''s''
         = Inr ''=== gpt-5.1-pro ===\<newline>pro out\<newline>\<newline>=== gpt-5.1 ===\<newline>base out''"
proof -
  let ?p = "JObj [(''model'', JStr ''gpt-5.1-pro''), (''status'', JStr ''completed''),
                  (''startedAt'', JStr ''2025-01-01T00:00:00.000Z''),
                  (''log'', JObj [(''path'', JStr ''models/gpt-5.1-pro.log'')])]"
  let ?b = "JObj [(''model'', JStr ''gpt-5.1''), (''status'', JStr ''completed''),
                  (''startedAt'', JStr ''2025-01-01T00:00:00.000Z''),
                  (''log'', JObj [(''path'', JStr ''models/gpt-5.1.log'')])]"
  have l: "listModelRunFiles exampleTiedRuns ''s'' = [?p, ?b]" by code_simp
  have k: "startKey ?p = ''2025-01-01T00:00:00.000Z''" "startKey ?b = ''2025-01-01T00:00:00.000Z''"
    "wellTypedRun ?p" "wellTypedRun ?b" "hasStart ?p" "hasStart ?b"
    by code_simp+
  have c: "compareRuns R x y = Inr 0" if "x \<in> set [?p, ?b]" "y \<in> set [?p, ?b]" for x y
  proof -
    from that k have "wellTypedRun x" "hasStart x" "hasStart y"
      "startKey x = ''2025-01-01T00:00:00.000Z''" "startKey y = ''2025-01-01T00:00:00.000Z''"
      by auto
    then show ?thesis by (simp add: compareRuns_started z)
  qed
  have cons: "consistentOn (compareRuns R) [?p, ?b]"
    unfolding consistentOn_def cmpNotAfter_iff cmpAfter_iff cmpBefore_iff
    by (intro conjI ballI impI) (simp_all only: c, simp_all)
  have n: "cmpNotAfter (compareRuns R) ?p ?b"
    unfolding cmpNotAfter_iff by (simp add: c)
  have srt: "Array_sort R (compareRuns R) [?p, ?b] = Inr [?p, ?b]"
    by (simp only: Array_sort_def cons if_True stableSort.simps insertStable.simps n)
  have secs: "logSections exampleTiedRuns ''s'' [?p, ?b] [] False
              = Inr ([''=== gpt-5.1-pro ===\<newline>pro out'', ''=== gpt-5.1 ===\<newline>base out''], True)"
    by code_simp
  have j: "join [CHR 0x0A, CHR 0x0A]
             [''=== gpt-5.1-pro ===\<newline>pro out'', ''=== gpt-5.1 ===\<newline>base out'']
           = ''=== gpt-5.1-pro ===\<newline>pro out\<newline>\<newline>=== gpt-5.1 ===\<newline>base out''"
    by code_simp
  show ?thesis
    by (simp add: readSessionLog_def l srt secs j Let_def del: logSections.simps)
qed






section \<open>File size limit and empty input\<close>

lemma sizeLoop_sorts:
  assumes "limit \<noteq> 0"
  shows "\<forall>p\<in>set candidates. fe_stat E p \<noteq> None \<Longrightarrow>
   sizeLoop E limit candidates oversized accepted
   = Inr (oversized @ map (oversizedEntry E) (filter (isOversized E limit) candidates),
          accepted @ filter (\<lambda>p. isRegularFile E p \<and> \<not> isOversized E limit p) candidates)"
proof (induction candidates arbitrary: oversized accepted)
  case Nil
  show ?case by simp
next
  case (Cons p ps)
  then obtain st where st: "fe_stat E p = Some st" by auto
  from Cons have ih: "\<And>ov acc. sizeLoop E limit ps ov acc
   = Inr (ov @ map (oversizedEntry E) (filter (isOversized E limit) ps),
          acc @ filter (\<lambda>p. isRegularFile E p \<and> \<not> isOversized E limit p) ps)" by simp
  have ov: "isOversized E limit p
            = (st_isFile st \<and> (case st_size st of None \<Rightarrow> False | Some sz \<Rightarrow> sz > limit))"
    by (simp add: isOversized_def st)
  have rg: "isRegularFile E p = st_isFile st" by (simp add: isRegularFile_def st)
  have en: "oversizedEntry E p = relativePath E p @ '' ('' @ formatBytes sz @ '')''"
    if "st_size st = Some sz" for sz
    using that by (simp add: oversizedEntry_def st)
  show ?case
  proof (cases "st_isFile st")
    case False
    then show ?thesis by (simp add: st ih ov rg)
  next
    case True
    show ?thesis
    proof (cases "st_size st")
      case None
      with True show ?thesis by (simp add: st ih ov rg)
    next
      case (Some sz)
      with True assms show ?thesis by (cases "sz > limit") (simp_all add: st ih ov rg en)
    qed
  qed
qed

lemma readLoop_reads:
  "\<forall>p\<in>set ps. fe_readFile E p \<noteq> None \<Longrightarrow>
   readLoop E ps files = Inr (files @ map (\<lambda>p. (p, contentOf E p)) ps)"
proof (induction ps arbitrary: files)
  case Nil
  show ?case by simp
next
  case (Cons p ps)
  then obtain c where c: "fe_readFile E p = Some c" by auto
  with Cons show ?case by (simp add: contentOf_def)
qed

lemma div_bounds:
  fixes d n :: nat
  assumes "0 < d"
  shows "d * (n div d) \<le> n" and "n < d * (n div d + 1)"
proof -
  show "d * (n div d) \<le> n" by (rule times_div_less_eq_dividend)
  have "n < d + d * (n div d)" using assms by (rule dividend_less_times_div)
  then show "n < d * (n div d + 1)" by (simp add: algebra_simps)
qed

lemma toFixed1_tenths:
  assumes "0 < unit"
  shows "\<exists>t. toFixed1 sz unit = showNat (t div 10) @ ''.'' @ showNat (t mod 10)
            \<and> (2 * unit) * t \<le> sz * 20 + unit \<and> sz * 20 + unit < (2 * unit) * (t + 1)"
proof -
  define t where "t = (sz * 20 + unit) div (2 * unit)"
  have e: "toFixed1 sz unit = showNat (t div 10) @ ''.'' @ showNat (t mod 10)"
    by (simp only: toFixed1_def t_def Let_def)
  from assms have u: "0 < 2 * unit" by simp
  from div_bounds [OF u, of "sz * 20 + unit"] e show ?thesis
    unfolding t_def by blast
qed

lemma formatBytes_MB: "1048576 \<le> sz \<Longrightarrow> formatBytes sz = toFixed1 sz 1048576 @ '' MB''"
  by (simp add: formatBytes_def)

lemma oversizedEntry_stat:
  "fe_stat E p = Some st \<Longrightarrow> st_size st = Some sz \<Longrightarrow>
   oversizedEntry E p = relativePath E p @ '' ('' @ formatBytes sz @ '')''"
  by (simp add: oversizedEntry_def)

text \<open>
  Claim C5. With the default limit of 1 MB (1,048,576 bytes), a regular file of exactly
  that size is not oversized and every regular file above it is. The entry of an oversized
  file is its relative path followed by its size in MB with one decimal in parentheses:
  the number of tenths \<open>t\<close> printed is the one nearest to the size divided by 1,048,576, the
  larger one at a tie. For candidates that can all be examined: when at least one is
  oversized, the call raises one file-validation error whose message and details list every
  oversized file, in order, by its entry, and returns no content; when none is oversized
  and the regular files can be read, the call returns their contents.
\<close>

theorem readFiles_size_limit:
  "(\<forall>st. fe_stat E p = Some st \<and> st_isFile st \<and> st_size st = Some 1048576 \<longrightarrow>
        \<not> isOversized E MAX_FILE_SIZE_BYTES p)
   \<and> (\<forall>st sz. fe_stat E p = Some st \<and> st_isFile st \<and> st_size st = Some sz \<and> 1048576 < sz \<longrightarrow>
        isOversized E MAX_FILE_SIZE_BYTES p)
   \<and> (\<forall>st sz. fe_stat E p = Some st \<and> st_size st = Some sz \<and> 1048576 < sz
          \<and> sz \<le> 9007199254740991 \<longrightarrow>
        (\<exists>t. oversizedEntry E p
               = relativePath E p @ '' ('' @ showNat (t div 10) @ ''.'' @ showNat (t mod 10)
                 @ '' MB)''
             \<and> 2097152 * t \<le> 20 * sz + 1048576 \<and> 20 * sz + 1048576 < 2097152 * (t + 1)))
   \<and> (paths \<noteq> [] \<and> filteredCandidates E paths = Inr (partitioned, candidates)
        \<and> (\<forall>c\<in>set candidates. fe_stat E c \<noteq> None) \<longrightarrow>
        ((\<exists>c\<in>set candidates. isOversized E MAX_FILE_SIZE_BYTES c) \<longrightarrow>
           readFiles E (Some paths) MAX_FILE_SIZE_BYTES
           = Inl (FileValidationError
                    (''The following files exceed the 1 MB limit:\<newline>- ''
                     @ join ''\<newline>- ''
                         (map (oversizedEntry E)
                              (filter (isOversized E MAX_FILE_SIZE_BYTES) candidates)))
                    (Oversized (map (oversizedEntry E)
                                    (filter (isOversized E MAX_FILE_SIZE_BYTES) candidates))
                               MAX_FILE_SIZE_BYTES)))
        \<and> (candidates \<noteq> [] \<and> \<not> (\<exists>c\<in>set candidates. isOversized E MAX_FILE_SIZE_BYTES c)
            \<and> (\<forall>c\<in>set candidates. isRegularFile E c \<longrightarrow> fe_readFile E c \<noteq> None) \<longrightarrow>
           readFiles E (Some paths) MAX_FILE_SIZE_BYTES
           = Inr (map (\<lambda>c. (c, contentOf E c)) (filter (isRegularFile E) candidates))))"
proof -
  have lim: "MAX_FILE_SIZE_BYTES \<noteq> 0" by (simp add: MAX_FILE_SIZE_BYTES_def)
  have exact: "\<not> isOversized E MAX_FILE_SIZE_BYTES p"
    if "fe_stat E p = Some st \<and> st_isFile st \<and> st_size st = Some 1048576" for st
    using that by (simp add: isOversized_def MAX_FILE_SIZE_BYTES_def)
  have over: "isOversized E MAX_FILE_SIZE_BYTES p"
    if "fe_stat E p = Some st \<and> st_isFile st \<and> st_size st = Some sz \<and> 1048576 < sz" for st sz
    using that by (simp add: isOversized_def MAX_FILE_SIZE_BYTES_def)
  have entry: "\<exists>t. oversizedEntry E p
               = relativePath E p @ '' ('' @ showNat (t div 10) @ ''.'' @ showNat (t mod 10)
                 @ '' MB)''
             \<and> 2097152 * t \<le> 20 * sz + 1048576 \<and> 20 * sz + 1048576 < 2097152 * (t + 1)"
    if h: "fe_stat E p = Some st \<and> st_size st = Some sz \<and> 1048576 < sz
           \<and> sz \<le> 9007199254740991" for st sz
  proof -
    from h have st: "fe_stat E p = Some st" and sz: "st_size st = Some sz" and gt: "1048576 < sz"
      by blast+
    from toFixed1_tenths [of 1048576 sz] obtain t where
      t: "toFixed1 sz 1048576 = showNat (t div 10) @ ''.'' @ showNat (t mod 10)"
         "(2 * 1048576) * t \<le> sz * 20 + 1048576" "sz * 20 + 1048576 < (2 * 1048576) * (t + 1)"
      by auto
    from gt have "formatBytes sz = toFixed1 sz 1048576 @ '' MB''"
      by (intro formatBytes_MB) simp
    then have e: "oversizedEntry E p
          = relativePath E p @ '' ('' @ showNat (t div 10) @ ''.'' @ showNat (t mod 10) @ '' MB)''"
      by (simp add: oversizedEntry_stat [OF st sz] t(1))
    from t(2) have b1: "2097152 * t \<le> 20 * sz + 1048576" by (simp add: mult.commute)
    from t(3) have b2: "20 * sz + 1048576 < 2097152 * (t + 1)" by (simp add: mult.commute)
    from e b1 b2 show ?thesis by blast
  qed
  have big: "readFiles E (Some paths) MAX_FILE_SIZE_BYTES
           = Inl (FileValidationError
                    (''The following files exceed the 1 MB limit:\<newline>- ''
                     @ join ''\<newline>- ''
                         (map (oversizedEntry E)
                              (filter (isOversized E MAX_FILE_SIZE_BYTES) candidates)))
                    (Oversized (map (oversizedEntry E)
                                    (filter (isOversized E MAX_FILE_SIZE_BYTES) candidates))
                               MAX_FILE_SIZE_BYTES))"
    if ne: "paths \<noteq> []" and fc: "filteredCandidates E paths = Inr (partitioned, candidates)"
      and ok: "\<forall>c\<in>set candidates. fe_stat E c \<noteq> None"
      and ex: "\<exists>c\<in>set candidates. isOversized E MAX_FILE_SIZE_BYTES c"
  proof -
    from ex have c: "candidates \<noteq> []" by auto
    from ex have f: "filter (isOversized E MAX_FILE_SIZE_BYTES) candidates \<noteq> []"
      by (simp add: filter_empty_conv)
    show ?thesis
      using ne c f
      by (simp add: readFiles_def fc sizeLoop_sorts [OF lim ok])
  qed
  have small: "readFiles E (Some paths) MAX_FILE_SIZE_BYTES
           = Inr (map (\<lambda>c. (c, contentOf E c)) (filter (isRegularFile E) candidates))"
    if ne: "paths \<noteq> []" and fc: "filteredCandidates E paths = Inr (partitioned, candidates)"
      and ok: "\<forall>c\<in>set candidates. fe_stat E c \<noteq> None"
      and c: "candidates \<noteq> []"
      and nex: "\<not> (\<exists>c\<in>set candidates. isOversized E MAX_FILE_SIZE_BYTES c)"
      and rd: "\<forall>c\<in>set candidates. isRegularFile E c \<longrightarrow> fe_readFile E c \<noteq> None"
  proof -
    from nex have f: "filter (isOversized E MAX_FILE_SIZE_BYTES) candidates = []"
      by (simp add: filter_empty_conv)
    from nex have g: "filter (\<lambda>p. isRegularFile E p \<and> \<not> isOversized E MAX_FILE_SIZE_BYTES p) candidates
                      = filter (isRegularFile E) candidates"
      by (auto intro: filter_cong)
    from rd have r: "\<forall>p\<in>set (filter (isRegularFile E) candidates). fe_readFile E p \<noteq> None"
      by simp
    show ?thesis
      using ne c
      by (simp add: readFiles_def fc sizeLoop_sorts [OF lim ok] f g readLoop_reads [OF r])
  qed
  from exact over entry big small show ?thesis by (intro conjI allI impI) blast+
qed

lemma partitionLoop_error:
  "partitionLoop E paths result = Inl e \<Longrightarrow>
   \<exists>raw d. e = FileValidationError (''Missing file or directory: '' @ raw) d
           \<or> e = FileValidationError (''Not a file or directory: '' @ raw) d"
proof (induction paths arbitrary: result)
  case Nil
  then show ?case by simp
next
  case (Cons entry rest)
  from Cons(2) show ?case
    by (auto simp: Let_def split: if_splits option.splits dest: Cons(1))
qed

lemma sizeLoop_error:
  "sizeLoop E limit candidates oversized accepted = Inl e \<Longrightarrow>
   \<exists>r d. e = FileValidationError (''Missing file or directory: '' @ r) d"
proof (induction candidates arbitrary: oversized accepted)
  case Nil
  then show ?case by simp
next
  case (Cons p ps)
  show ?case
  proof (cases "limit = 0")
    case True
    from Cons(2) show ?thesis
      unfolding True by (auto split: option.splits if_splits dest: Cons(1) [unfolded True])
  next
    case False
    from Cons(2) False show ?thesis
      by (auto split: option.splits if_splits dest: Cons(1))
  qed
qed

lemma readLoop_error:
  "readLoop E ps files = Inl e \<Longrightarrow> \<exists>p. e = SystemError ''ENOENT'' p"
proof (induction ps arbitrary: files)
  case Nil
  then show ?case by simp
next
  case (Cons p ps)
  from Cons(2) show ?case by (auto split: option.splits dest: Cons(1))
qed

lemma filteredCandidates_error:
  assumes "filteredCandidates E paths = Inl e"
  shows "e \<noteq> FileValidationError ''No files matched the provided --file patterns.'' d"
proof (cases "partitionFileInputs E paths")
  case (Inl e')
  with assms have "e = e'" by (simp add: filteredCandidates_def)
  with Inl partitionLoop_error [of E paths _ e] show ?thesis
    by (auto simp: partitionFileInputs_def)
next
  case (Inr partitioned)
  with assms show ?thesis
    by (auto simp: filteredCandidates_def Let_def split: if_splits sum.splits prod.splits)
qed

text \<open>
  Claim C10. An absent or empty list of paths gives the empty list and no error. The
  error \<open>No files matched the provided --file patterns.\<close> is raised exactly when a
  non-empty list of paths leaves no candidate after expansion and ignore filtering.
\<close>

theorem readFiles_empty_input:
  "readFiles E None limit = Inr []
   \<and> readFiles E (Some []) limit = Inr []
   \<and> (readFiles E filePaths limit
        = Inl (FileValidationError ''No files matched the provided --file patterns.'' details) \<longrightarrow>
      (\<exists>paths partitioned. filePaths = Some paths \<and> paths \<noteq> []
           \<and> filteredCandidates E paths = Inr (partitioned, [])))
   \<and> (paths \<noteq> [] \<and> filteredCandidates E paths = Inr (partitioned, []) \<longrightarrow>
      readFiles E (Some paths) limit
      = Inl (FileValidationError ''No files matched the provided --file patterns.''
               (Patterns (globPatterns partitioned) (excludePatterns partitioned))))"
proof -
  have only: "\<exists>paths partitioned. filePaths = Some paths \<and> paths \<noteq> []
           \<and> filteredCandidates E paths = Inr (partitioned, [])"
    if r: "readFiles E filePaths limit
        = Inl (FileValidationError ''No files matched the provided --file patterns.'' details)"
  proof -
    from r obtain ps where ps: "filePaths = Some ps" "ps \<noteq> []"
      by (cases filePaths) (auto simp: readFiles_def split: if_splits)
    show ?thesis
    proof (cases "filteredCandidates E ps")
      case (Inl e)
      with r ps filteredCandidates_error [OF Inl, of details] show ?thesis
        by (simp add: readFiles_def)
    next
      case (Inr pc)
      obtain partitioned candidates where pc: "pc = (partitioned, candidates)" by (cases pc)
      show ?thesis
      proof (cases "candidates = []")
        case True
        with ps Inr pc show ?thesis by simp
      next
        case False
        show ?thesis
        proof (cases "sizeLoop E limit candidates [] []")
          case (Inl e)
          with r ps Inr pc False sizeLoop_error [OF Inl] show ?thesis
            by (auto simp: readFiles_def)
        next
          case inner: (Inr oa)
          obtain oversized accepted where oa: "oa = (oversized, accepted)" by (cases oa)
          show ?thesis
          proof (cases "oversized = []")
            case True
            with r ps Inr pc False inner oa
            have "readLoop E accepted [] = Inl (FileValidationError
                    ''No files matched the provided --file patterns.'' details)"
              by (simp add: readFiles_def)
            from readLoop_error [OF this] show ?thesis by simp
          next
            case ov: False
            with r ps Inr pc False inner oa show ?thesis
              by (simp add: readFiles_def)
          qed
        qed
      qed
    qed
  qed
  have "if": "readFiles E (Some paths) limit
      = Inl (FileValidationError ''No files matched the provided --file patterns.''
               (Patterns (globPatterns partitioned) (excludePatterns partitioned)))"
    if "paths \<noteq> []" "filteredCandidates E paths = Inr (partitioned, [])"
    using that by (simp add: readFiles_def)
  have none: "readFiles E None limit = Inr []" by (simp add: readFiles_def)
  have empty: "readFiles E (Some []) limit = Inr []" by (simp add: readFiles_def)
  from none empty only "if" show ?thesis by blast
qed


lemma digit_chars:
  "char_of (48 :: nat) = CHR ''0''" "char_of (49 :: nat) = CHR ''1''"
  "char_of (50 :: nat) = CHR ''2''" "char_of (51 :: nat) = CHR ''3''"
  "char_of (52 :: nat) = CHR ''4''" "char_of (53 :: nat) = CHR ''5''"
  "char_of (54 :: nat) = CHR ''6''" "char_of (55 :: nat) = CHR ''7''"
  "char_of (56 :: nat) = CHR ''8''" "char_of (57 :: nat) = CHR ''9''"
  by code_simp+

lemma example_trims:
  "trim ''exact.bin'' = ''exact.bin''" "trim ''big.bin'' = ''big.bin''"
  "trim ''small.txt'' = ''small.txt''" "trim ''*.md'' = ''*.md''"
  by code_simp+

theorem readFiles_size_limit_witness:
  "readFiles exampleFileEnv (Some [''exact.bin'', ''big.bin'']) MAX_FILE_SIZE_BYTES
     = Inl (FileValidationError
              ''The following files exceed the 1 MB limit:\<newline>- big.bin (1.0 MB)''
              (Oversized [''big.bin (1.0 MB)''] MAX_FILE_SIZE_BYTES))
   \<and> readFiles exampleFileEnv (Some [''exact.bin'', ''small.txt'']) MAX_FILE_SIZE_BYTES
     = Inr [(''/w/exact.bin'', ''(1048576 bytes)''), (''/w/small.txt'', ''hello'')]
   \<and> \<not> isOversized exampleFileEnv MAX_FILE_SIZE_BYTES ''/w/exact.bin''
   \<and> isOversized exampleFileEnv MAX_FILE_SIZE_BYTES ''/w/big.bin''
   \<and> oversizedEntry exampleFileEnv ''/w/clip.bin'' = ''clip.bin (1.6 MB)''"
proof -
  let ?E = exampleFileEnv
  let ?P1 = "\<lparr> globPatterns = [], excludePatterns = [],
               literalFiles = [''/w/exact.bin'', ''/w/big.bin''], literalDirectories = [] \<rparr>"
  let ?P2 = "\<lparr> globPatterns = [], excludePatterns = [],
               literalFiles = [''/w/exact.bin'', ''/w/small.txt''], literalDirectories = [] \<rparr>"
  have fc1: "filteredCandidates ?E [''exact.bin'', ''big.bin'']
             = Inr (?P1, [''/w/exact.bin'', ''/w/big.bin''])"
    by (simp add: filteredCandidates_def partitionFileInputs_def example_trims exampleFileEnv_def
          path_isAbsolute_def path_join_def Let_def)
  have fc2: "filteredCandidates ?E [''exact.bin'', ''small.txt'']
             = Inr (?P2, [''/w/exact.bin'', ''/w/small.txt''])"
    by (simp add: filteredCandidates_def partitionFileInputs_def example_trims exampleFileEnv_def
          path_isAbsolute_def path_join_def Let_def)
  have ne1: "[''exact.bin'', ''big.bin''] \<noteq> []" and ne2: "[''exact.bin'', ''small.txt''] \<noteq> []"
    by simp_all
  have st1: "\<forall>c\<in>set [''/w/exact.bin'', ''/w/big.bin'']. fe_stat ?E c \<noteq> None"
    by (simp add: exampleFileEnv_def)
  have st2: "\<forall>c\<in>set [''/w/exact.bin'', ''/w/small.txt'']. fe_stat ?E c \<noteq> None"
    by (simp add: exampleFileEnv_def)
  have ov1: "\<exists>c\<in>set [''/w/exact.bin'', ''/w/big.bin'']. isOversized ?E MAX_FILE_SIZE_BYTES c"
    by (simp add: isOversized_def exampleFileEnv_def MAX_FILE_SIZE_BYTES_def)
  have ov2: "\<not> (\<exists>c\<in>set [''/w/exact.bin'', ''/w/small.txt'']. isOversized ?E MAX_FILE_SIZE_BYTES c)"
    by (simp add: isOversized_def exampleFileEnv_def MAX_FILE_SIZE_BYTES_def)
  have c2: "[''/w/exact.bin'', ''/w/small.txt''] \<noteq> []" by simp
  have rd2: "\<forall>c\<in>set [''/w/exact.bin'', ''/w/small.txt''].
               isRegularFile ?E c \<longrightarrow> fe_readFile ?E c \<noteq> None"
    by (simp add: exampleFileEnv_def)
  have en1: "map (oversizedEntry ?E)
               (filter (isOversized ?E MAX_FILE_SIZE_BYTES) [''/w/exact.bin'', ''/w/big.bin''])
             = [''big.bin (1.0 MB)'']"
    by (simp add: isOversized_def oversizedEntry_def relativePath_def formatBytes_def toFixed1_def
          showNat.simps digit_chars exampleFileEnv_def MAX_FILE_SIZE_BYTES_def Let_def)
  have rg2: "map (\<lambda>c. (c, contentOf ?E c))
               (filter (isRegularFile ?E) [''/w/exact.bin'', ''/w/small.txt''])
             = [(''/w/exact.bin'', ''(1048576 bytes)''), (''/w/small.txt'', ''hello'')]"
    by (simp add: isRegularFile_def contentOf_def exampleFileEnv_def)
  have s1: "fe_stat ?E ''/w/exact.bin''
              = Some \<lparr> st_isFile = True, st_isDirectory = False, st_size = Some 1048576 \<rparr>"
    by (simp add: exampleFileEnv_def)
  have s2: "fe_stat ?E ''/w/big.bin''
              = Some \<lparr> st_isFile = True, st_isDirectory = False, st_size = Some 1048577 \<rparr>"
    by (simp add: exampleFileEnv_def)
  from readFiles_size_limit [of ?E "''/w/exact.bin''" "[''exact.bin'', ''big.bin'']" ?P1
         "[''/w/exact.bin'', ''/w/big.bin'']"] ne1 fc1 st1 ov1
  have a: "readFiles ?E (Some [''exact.bin'', ''big.bin'']) MAX_FILE_SIZE_BYTES
     = Inl (FileValidationError
              (''The following files exceed the 1 MB limit:\<newline>- ''
               @ join ''\<newline>- ''
                   (map (oversizedEntry ?E)
                        (filter (isOversized ?E MAX_FILE_SIZE_BYTES)
                                [''/w/exact.bin'', ''/w/big.bin''])))
              (Oversized (map (oversizedEntry ?E)
                              (filter (isOversized ?E MAX_FILE_SIZE_BYTES)
                                      [''/w/exact.bin'', ''/w/big.bin'']))
                         MAX_FILE_SIZE_BYTES))"
    by blast
  from readFiles_size_limit [of ?E "''/w/exact.bin''" "[''exact.bin'', ''small.txt'']" ?P2
         "[''/w/exact.bin'', ''/w/small.txt'']"] ne2 fc2 st2 ov2 c2 rd2
  have b: "readFiles ?E (Some [''exact.bin'', ''small.txt'']) MAX_FILE_SIZE_BYTES
     = Inr (map (\<lambda>c. (c, contentOf ?E c))
              (filter (isRegularFile ?E) [''/w/exact.bin'', ''/w/small.txt'']))"
    by blast
  from readFiles_size_limit [of ?E "''/w/exact.bin''" "[''exact.bin'', ''big.bin'']" ?P1
         "[''/w/exact.bin'', ''/w/big.bin'']"] s1
  have c: "\<not> isOversized ?E MAX_FILE_SIZE_BYTES ''/w/exact.bin''" by simp
  from readFiles_size_limit [of ?E "''/w/big.bin''" "[''exact.bin'', ''big.bin'']" ?P1
         "[''/w/exact.bin'', ''/w/big.bin'']"] s2
  have d: "isOversized ?E MAX_FILE_SIZE_BYTES ''/w/big.bin''" by simp
  from a have a': "readFiles ?E (Some [''exact.bin'', ''big.bin'']) MAX_FILE_SIZE_BYTES
     = Inl (FileValidationError
              ''The following files exceed the 1 MB limit:\<newline>- big.bin (1.0 MB)''
              (Oversized [''big.bin (1.0 MB)''] MAX_FILE_SIZE_BYTES))"
    unfolding en1 by simp
  from b have b': "readFiles ?E (Some [''exact.bin'', ''small.txt'']) MAX_FILE_SIZE_BYTES
     = Inr [(''/w/exact.bin'', ''(1048576 bytes)''), (''/w/small.txt'', ''hello'')]"
    unfolding rg2 .
  have s3: "fe_stat ?E ''/w/clip.bin''
              = Some \<lparr> st_isFile = True, st_isDirectory = False, st_size = Some 1625293 \<rparr>"
    by (simp add: exampleFileEnv_def)
  have r3: "relativePath ?E ''/w/clip.bin'' = ''clip.bin''"
    by (simp add: relativePath_def exampleFileEnv_def)
  from readFiles_size_limit [of ?E "''/w/clip.bin''" "[''exact.bin'', ''big.bin'']" ?P1
         "[''/w/exact.bin'', ''/w/big.bin'']"] s3
  obtain t :: nat where
    t: "oversizedEntry ?E ''/w/clip.bin''
        = relativePath ?E ''/w/clip.bin'' @ '' ('' @ showNat (t div 10) @ ''.''
          @ showNat (t mod 10) @ '' MB)''"
       "2097152 * t \<le> 20 * (1625293 :: nat) + 1048576"
       "20 * (1625293 :: nat) + 1048576 < 2097152 * (t + 1)"
    by auto
  from t(2,3) have "t = 16" by simp
  with t(1) have e: "oversizedEntry ?E ''/w/clip.bin'' = ''clip.bin (1.6 MB)''"
    by (simp add: r3 showNat.simps digit_chars)
  from a' b' c d e show ?thesis by blast
qed

theorem readFiles_empty_input_witness:
  "readFiles exampleFileEnv (Some [''*.md'']) MAX_FILE_SIZE_BYTES
     = Inl (FileValidationError ''No files matched the provided --file patterns.''
              (Patterns [''*.md''] []))
   \<and> (\<exists>paths partitioned. Some [''*.md''] = Some paths \<and> paths \<noteq> []
         \<and> filteredCandidates exampleFileEnv paths = Inr (partitioned, []))"
proof -
  let ?P = "\<lparr> globPatterns = [''*.md''], excludePatterns = [],
              literalFiles = [], literalDirectories = [] \<rparr>"
  have fc: "filteredCandidates exampleFileEnv [''*.md''] = Inr (?P, [])"
    by (simp add: filteredCandidates_def partitionFileInputs_def example_trims exampleFileEnv_def
          normalizeGlob_def toPosix_def path_isAbsolute_def Let_def)
  have ne: "[''*.md''] \<noteq> []" by simp
  from readFiles_empty_input [of exampleFileEnv MAX_FILE_SIZE_BYTES "Some [''*.md'']"
         "Patterns [''*.md''] []" "[''*.md'']" ?P] ne fc
  have a: "readFiles exampleFileEnv (Some [''*.md'']) MAX_FILE_SIZE_BYTES
     = Inl (FileValidationError ''No files matched the provided --file patterns.''
              (Patterns (globPatterns ?P) (excludePatterns ?P)))"
    by blast
  then have a': "readFiles exampleFileEnv (Some [''*.md'']) MAX_FILE_SIZE_BYTES
     = Inl (FileValidationError ''No files matched the provided --file patterns.''
              (Patterns [''*.md''] []))"
    by simp
  from readFiles_empty_input [of exampleFileEnv MAX_FILE_SIZE_BYTES "Some [''*.md'']"
         "Patterns [''*.md''] []" "[''*.md'']" ?P] a'
  have "\<exists>paths partitioned. Some [''*.md''] = Some paths \<and> paths \<noteq> []
         \<and> filteredCandidates exampleFileEnv paths = Inr (partitioned, [])"
    by blast
  with a' show ?thesis by blast
qed

end
